(* ===== verification/Go_Prelude.thy ===== *)
theory Go_Prelude
  imports Main "HOL-Library.Word" "HOL-Library.Multiset"
begin

text \<open>
  What the whole development shares: the outcome of a Go call (a result, an error value,
  a panic, or blocking for ever), bounds-checked indexing and slicing, bytes and strings,
  big-endian 16-bit fields, and the handful of generic lemmas on them.

  A Go string and a Go \<open>[]byte\<close> are both byte sequences. Text the program compares with
  literals is a HOL \<open>string\<close> (a \<open>char\<close> is one byte); binary protocol data is a list of
  \<open>8 word\<close>. \<open>bytes_of\<close> and \<open>string_of\<close> are the conversions \<open>([]byte)(s)\<close> and \<open>(string)(b)\<close>.
\<close>

unbundle bit_operations_syntax

named_theorems go_simps "evaluation rules of the outcome type and of checked indexing"
named_theorems byte_simps "laws of big-endian fields and of the byte/string conversions"

section \<open>Types\<close>

type_synonym byte = "8 word"
type_synonym bytes = "8 word list"
type_synonym u16 = "16 word"

datatype panic =
    IndexOutOfRange
  | SliceOutOfRange
  | NilDereference
  | SliceToArray
  | PanicValue string

datatype ('e, 'a) outcome =
    Ok 'a
  | Err 'e
  | Panic panic
  | Hang

section \<open>Sequencing\<close>

fun obind :: "('e, 'a) outcome \<Rightarrow> ('a \<Rightarrow> ('e, 'b) outcome) \<Rightarrow> ('e, 'b) outcome" where
  "obind (Ok x) f = f x"
| "obind (Err e) f = Err e"
| "obind (Panic p) f = Panic p"
| "obind Hang f = Hang"

declare obind.simps [go_simps]

lemma obind_Ok_iff [go_simps]:
  "obind m f = Ok y \<longleftrightarrow> (\<exists>x. m = Ok x \<and> f x = Ok y)"
  by (cases m) auto

lemma obind_cong [fundef_cong]:
  "m = m' \<Longrightarrow> (\<And>x. m' = Ok x \<Longrightarrow> f x = f' x) \<Longrightarrow> obind m f = obind m' f'"
  by (cases m') auto

lemma obind_assoc: "obind (obind m f) g = obind m (\<lambda>x. obind (f x) g)"
  by (cases m) auto

fun no_panic :: "('e, 'a) outcome \<Rightarrow> bool" where
  "no_panic (Panic p) = False"
| "no_panic _ = True"

lemma no_panic_obind [intro]:
  "no_panic m \<Longrightarrow> (\<And>x. m = Ok x \<Longrightarrow> no_panic (f x)) \<Longrightarrow> no_panic (obind m f)"
  by (cases m) auto

section \<open>Indexing and slicing, with Go's bounds checks\<close>

text \<open>\<open>s[i]\<close>, \<open>s[lo:hi]\<close> and \<open>s[lo:]\<close> on a slice whose capacity ends with its contents.
  Indices are Go \<open>int\<close>s, which may be negative.\<close>

definition go_index :: "'a list \<Rightarrow> int \<Rightarrow> ('e, 'a) outcome" where
  "go_index xs i =
     (if 0 \<le> i \<and> i < int (length xs) then Ok (xs ! nat i) else Panic IndexOutOfRange)"

definition go_slice :: "'a list \<Rightarrow> int \<Rightarrow> int \<Rightarrow> ('e, 'a list) outcome" where
  "go_slice xs lo hi =
     (if 0 \<le> lo \<and> lo \<le> hi \<and> hi \<le> int (length xs)
      then Ok (take (nat (hi - lo)) (drop (nat lo) xs)) else Panic SliceOutOfRange)"

definition go_slice_from :: "'a list \<Rightarrow> int \<Rightarrow> ('e, 'a list) outcome" where
  "go_slice_from xs lo = go_slice xs lo (int (length xs))"

lemma go_index_Ok [go_simps]: "i < length xs \<Longrightarrow> go_index xs (int i) = Ok (xs ! i)"
  by (simp add: go_index_def)

lemma go_index_0 [go_simps]: "go_index (x # xs) 0 = Ok x"
  by (simp add: go_index_def)

lemma go_index_numeral [go_simps]:
  "go_index xs (numeral k) =
     (if numeral k < length xs then Ok (xs ! numeral k) else Panic IndexOutOfRange)"
  by (simp add: go_index_def)

lemma go_index_one [go_simps]:
  "go_index xs 1 = (if 1 < length xs then Ok (xs ! 1) else Panic IndexOutOfRange)"
  by (simp add: go_index_def)

lemma go_index_zero [go_simps]:
  "go_index xs 0 = (if xs \<noteq> [] then Ok (hd xs) else Panic IndexOutOfRange)"
  by (cases xs) (auto simp: go_index_def)

lemma go_slice_from_Ok [go_simps]:
  "i \<le> length xs \<Longrightarrow> go_slice_from xs (int i) = Ok (drop i xs)"
  by (simp add: go_slice_from_def go_slice_def)

lemma go_slice_from_numeral [go_simps]:
  "go_slice_from xs (numeral k) =
     (if numeral k \<le> length xs then Ok (drop (numeral k) xs) else Panic SliceOutOfRange)"
  by (auto simp: go_slice_from_def go_slice_def nat_diff_distrib)

lemma go_slice_from_one [go_simps]:
  "go_slice_from xs 1 = (if xs \<noteq> [] then Ok (tl xs) else Panic SliceOutOfRange)"
  by (cases xs) (auto simp: go_slice_from_def go_slice_def)

lemma go_slice_full [simp]: "go_slice xs 0 (int (length xs)) = Ok xs"
  by (simp add: go_slice_def)

section \<open>Bytes and strings\<close>

definition byte_of :: "char \<Rightarrow> byte" where
  "byte_of c = word_of_nat (of_char c)"

definition char_of_byte :: "byte \<Rightarrow> char" where
  "char_of_byte b = char_of (unat b)"

definition bytes_of :: "string \<Rightarrow> bytes" where
  "bytes_of = map byte_of"

definition string_of :: "bytes \<Rightarrow> string" where
  "string_of = map char_of_byte"

lemma char_of_byte_of [simp, byte_simps]: "char_of_byte (byte_of c) = c"
proof -
  have "of_char c < (256 :: nat)" by simp
  then have "unat (word_of_nat (of_char c) :: byte) = of_char c"
    by (simp add: unat_of_nat take_bit_eq_mod)
  then show ?thesis by (simp add: char_of_byte_def byte_of_def)
qed

lemma byte_of_char_of [simp, byte_simps]: "byte_of (char_of_byte b) = b"
proof -
  have "unat b < 256" using unsigned_less [of b] by simp
  then show ?thesis by (simp add: char_of_byte_def byte_of_def)
qed

lemma string_of_bytes_of [simp, byte_simps]: "string_of (bytes_of s) = s"
  by (simp add: string_of_def bytes_of_def comp_def)

lemma bytes_of_string_of [simp, byte_simps]: "bytes_of (string_of b) = b"
  by (simp add: string_of_def bytes_of_def comp_def)

lemma length_bytes_of [simp, byte_simps]: "length (bytes_of s) = length s"
  by (simp add: bytes_of_def)

lemma length_string_of [simp, byte_simps]: "length (string_of b) = length b"
  by (simp add: string_of_def)

lemma bytes_of_append [byte_simps]: "bytes_of (s @ t) = bytes_of s @ bytes_of t"
  by (simp add: bytes_of_def)

section \<open>One-byte lengths\<close>

text \<open>\<open>(byte)(n)\<close> keeps the low eight bits of an \<open>int\<close> length.\<close>

definition len_byte :: "nat \<Rightarrow> byte" where
  "len_byte n = word_of_nat n"

lemma unat_len_byte [simp, byte_simps]: "unat (len_byte n) = n mod 256"
  by (simp add: len_byte_def unat_of_nat take_bit_eq_mod)

lemma unat_byte_less [simp, intro]: "unat (b :: byte) < 256"
  using unsigned_less [of b] by simp

lemma len_byte_unat [simp, byte_simps]: "len_byte (unat b) = b"
  by (simp add: len_byte_def)

section \<open>Big-endian 16-bit fields\<close>

definition hi_byte :: "u16 \<Rightarrow> byte" where
  "hi_byte w = ucast (drop_bit 8 w)"

definition lo_byte :: "u16 \<Rightarrow> byte" where
  "lo_byte w = ucast (w AND 0xff)"

definition be16 :: "byte \<Rightarrow> byte \<Rightarrow> u16" where
  "be16 h l = push_bit 8 (ucast h) OR ucast l"

lemma and_255: "(w :: u16) AND 255 = take_bit 8 w"
proof -
  have "(255 :: u16) = mask 8" by (simp add: mask_eq_exp_minus_1)
  then show ?thesis by (simp only: take_bit_eq_mask)
qed

lemma lo_byte_take_bit: "lo_byte w = ucast (take_bit 8 w)"
  by (simp only: lo_byte_def and_255)

lemma be16_hi_lo [simp, byte_simps]: "be16 (hi_byte w) (lo_byte w) = w"
  unfolding be16_def hi_byte_def lo_byte_take_bit
  by (rule bit_word_eqI) (auto simp: bit_simps not_le)

lemma hi_byte_be16 [simp, byte_simps]: "hi_byte (be16 h l) = h"
  unfolding be16_def hi_byte_def
  by (rule bit_word_eqI) (auto simp: bit_simps dest: bit_imp_le_length)

lemma lo_byte_be16 [simp, byte_simps]: "lo_byte (be16 h l) = l"
  unfolding be16_def lo_byte_take_bit
  by (rule bit_word_eqI) (auto simp: bit_simps dest: bit_imp_le_length)

text \<open>The same field read as a Go \<open>int\<close>: \<open>((int)(h) << 8) | (int)(l)\<close>.\<close>

definition be16_int :: "byte \<Rightarrow> byte \<Rightarrow> int" where
  "be16_int h l = push_bit 8 (uint h) OR uint l"

lemma be16_int_eq: "be16_int h l = 256 * uint h + uint l"
proof -
  have "push_bit 8 (uint h) AND uint l = 0"
    by (rule bit_eqI) (auto simp: bit_simps dest: bit_imp_le_length)
  then have "be16_int h l = push_bit 8 (uint h) + uint l"
    by (simp add: be16_int_def disjunctive_add_eq_or)
  then show ?thesis by (simp add: push_bit_eq_mult)
qed

lemma and_255_int: "(n :: int) AND 255 = n mod 256"
proof -
  have "(255 :: int) = mask 8" by (simp add: mask_eq_exp_minus_1)
  then have "n AND 255 = take_bit 8 n" by (simp only: take_bit_eq_mask)
  then show ?thesis by (simp add: take_bit_eq_mod)
qed

lemma be16_int_nonneg [simp]: "0 \<le> be16_int h l"
  by (simp add: be16_int_eq)

lemma be16_int_less [simp]: "be16_int h l < 65536"
  using uint_lt2p [of h] uint_lt2p [of l] by (simp add: be16_int_eq)

section \<open>Lists read field by field\<close>

lemma take_drop_Suc: "take (Suc n) (x # xs) = x # take n xs"
  by simp

lemma length_ge_2E:
  assumes "2 \<le> length xs"
  obtains a b ys where "xs = a # b # ys"
  using assms by (cases xs; cases "tl xs") auto

section \<open>A list without one of its elements\<close>

definition remove_at :: "nat \<Rightarrow> 'a list \<Rightarrow> 'a list" where
  "remove_at i xs = take i xs @ drop (Suc i) xs"

lemma remove_at_Cons_0 [simp]: "remove_at 0 (x # xs) = xs"
  by (simp add: remove_at_def)

lemma map_remove_at: "map f (remove_at i xs) = remove_at i (map f xs)"
  by (simp add: remove_at_def take_map drop_map)

lemma set_remove_at: "set (remove_at i xs) \<subseteq> set xs"
  unfolding remove_at_def using set_take_subset set_drop_subset by fastforce

lemma length_remove_at: "i < length xs \<Longrightarrow> length (remove_at i xs) = length xs - 1"
  by (simp add: remove_at_def)

lemma mset_remove_at: "i < length xs \<Longrightarrow> add_mset (xs ! i) (mset (remove_at i xs)) = mset xs"
  by (metis append.assoc append_Cons append_Nil id_take_nth_drop mset_append mset.simps(2) remove_at_def
      union_mset_add_mset_right)

lemma mset_remove_at_subset: "mset (remove_at i xs) \<subseteq># mset xs"
proof (cases "i < length xs")
  case True
  from mset_remove_at [OF this] show ?thesis by (metis mset_subset_eq_add_mset_cancel subset_mset.dual_order.refl mset_subset_eq_insertD subset_mset.less_imp_le)
qed (simp add: remove_at_def)

end
