(* ===== verification/L2tp.thy ===== *)
theory L2tp
  imports Go_Prelude
begin

text \<open>
  The L2TP server of \<open>l2tp/server.go\<close> and \<open>l2tp/errors.go\<close>: the packet header and the
  attribute-value pairs with their parsers and encoders, and the datagram handler.
  Every slice and index expression keeps its bounds check, so a packet that makes the Go
  code panic makes the model return \<open>Panic\<close>.
\<close>

section \<open>Errors\<close>

datatype l2tp_error =
    IncorrectFormatErr
  | WrongLengthErr
  | VersionError byte
  | UnexpectFlagValue string bool
  | PanicError panic
  | NetError string

text \<open>
  \<open>recover\<close> returns the panic value only in the deferred function itself; called from a
  function that the deferred function calls (\<open>depth > 0\<close>) it returns nil.
\<close>

definition go_recover :: "nat \<Rightarrow> panic option \<Rightarrow> panic option" where
  "go_recover depth p = (if depth = 0 then p else None)"

definition recoverAsError :: "nat \<Rightarrow> panic option \<Rightarrow> l2tp_error option" where
  "recoverAsError depth p =
     (case go_recover depth p of None \<Rightarrow> None | Some v \<Rightarrow> Some (PanicError v))"

section \<open>The packet header\<close>

record header =
  isControl :: bool
  priority :: bool
  sequence :: bool
  tunnelID :: u16
  sessionID :: u16
  ns :: u16
  nr :: u16
  hlength :: int
  offset :: int

definition L2TPVersion :: byte where "L2TPVersion = 0x02"

definition flagType :: u16 where "flagType = push_bit (15 - 0) 1"
definition flagLength :: u16 where "flagLength = push_bit (15 - 1) 1"
definition flagSequence :: u16 where "flagSequence = push_bit (15 - 4) 1"
definition flagOffset :: u16 where "flagOffset = push_bit (15 - 6) 1"
definition flagPriority :: u16 where "flagPriority = push_bit (15 - 7) 1"

lemmas flag_defs = flagType_def flagLength_def flagSequence_def flagOffset_def flagPriority_def

text \<open>\<open>((uint16)(buf[i]) << 8) | (uint16)(buf[i+1])\<close>, and the same read as an \<open>int\<close>.\<close>

definition u16_at :: "bytes \<Rightarrow> int \<Rightarrow> ('e, u16) outcome" where
  "u16_at buf i =
     obind (go_index buf i) (\<lambda>h. obind (go_index buf (i + 1)) (\<lambda>l. Ok (be16 h l)))"

definition int16_at :: "bytes \<Rightarrow> int \<Rightarrow> ('e, int) outcome" where
  "int16_at buf i =
     obind (go_index buf i) (\<lambda>h. obind (go_index buf (i + 1)) (\<lambda>l. Ok (be16_int h l)))"

lemma u16_at_Cons2 [go_simps]: "u16_at (a # b # xs) 0 = Ok (be16 a b)"
  by (simp add: u16_at_def go_simps)

lemma int16_at_Cons2 [go_simps]: "int16_at (a # b # xs) 0 = Ok (be16_int a b)"
  by (simp add: int16_at_def go_simps)

lemma u16_at_2_Cons4 [go_simps]: "u16_at (a # b # c # d # xs) 2 = Ok (be16 c d)"
  by (simp add: u16_at_def go_simps)

lemma u16_at_4_Cons6 [go_simps]: "u16_at (a # b # c # d # e # f # xs) 4 = Ok (be16 e f)"
  by (simp add: u16_at_def go_simps)

lemma int16_at_short: "length xs < 2 \<Longrightarrow> int16_at xs 0 = Panic IndexOutOfRange"
  by (cases xs) (auto simp: int16_at_def go_simps go_index_def)

subsection \<open>Parsing, section by section as the function has them\<close>

definition parse_length :: "u16 \<Rightarrow> bytes \<Rightarrow> (l2tp_error, int \<times> bytes) outcome" where
  "parse_length flags buf =
     (if flags AND flagLength \<noteq> 0
      then obind (int16_at buf 0) (\<lambda>leng.
             if int (length buf) + 2 < leng then Err WrongLengthErr
             else obind (go_slice buf 2 (leng - 2)) (\<lambda>buf. Ok (leng, buf)))
      else Ok (0, buf))"

definition parse_sequence ::
  "bool \<Rightarrow> bool \<Rightarrow> bytes \<Rightarrow> (l2tp_error, u16 \<times> u16 \<times> bytes) outcome" where
  "parse_sequence isCtl sqn buf =
     (if sqn
      then obind (u16_at buf 0) (\<lambda>nsv.
           obind (u16_at buf 2) (\<lambda>nrv.
           obind (go_slice_from buf 4) (\<lambda>buf. Ok (nsv, nrv, buf))))
      else if isCtl then Err (UnexpectFlagValue ''Sequence'' True)
      else Ok (0, 0, buf))"

definition parse_offset ::
  "bool \<Rightarrow> u16 \<Rightarrow> bytes \<Rightarrow> (l2tp_error, u16 \<times> bytes) outcome" where
  "parse_offset isCtl flags buf =
     (if flags AND flagOffset \<noteq> 0
      then if isCtl then Err (UnexpectFlagValue ''Offset'' False)
           else obind (u16_at buf 0) (\<lambda>off.
                obind (go_slice_from buf (uint (2 + off))) (\<lambda>buf. Ok (off, buf)))
      else Ok (0, buf))"

definition parseHeader :: "bytes \<Rightarrow> (l2tp_error, header \<times> bytes) outcome" where
  "parseHeader buf =
     (if length buf < 6 then Err WrongLengthErr
      else obind (u16_at buf 0) (\<lambda>flags.
           obind (go_slice_from buf 2) (\<lambda>buf.
           let version = ucast (flags AND 0xf) :: byte;
               isCtl = flags AND flagType \<noteq> 0;
               prio = flags AND flagPriority \<noteq> 0;
               sqn = flags AND flagSequence \<noteq> 0
           in if version \<noteq> L2TPVersion then Err (VersionError version)
              else obind (parse_length flags buf) (\<lambda>(leng, buf).
                   obind (u16_at buf 0) (\<lambda>tid.
                   obind (u16_at buf 2) (\<lambda>sid.
                   obind (go_slice_from buf 4) (\<lambda>buf.
                   obind (parse_sequence isCtl sqn buf) (\<lambda>(nsv, nrv, buf).
                   obind (parse_offset isCtl flags buf) (\<lambda>(off, buf).
                   Ok (\<lparr>isControl = isCtl, priority = prio, sequence = sqn,
                        tunnelID = tid, sessionID = sid, ns = nsv, nr = nrv,
                        hlength = leng, offset = uint off\<rparr>, buf)))))))))) "

subsection \<open>Encoding\<close>

text \<open>The padding loop, \<open>for i := from; i < to; i++ { buf = append(buf, 0xfa) }\<close>.\<close>

function pad_loop :: "int \<Rightarrow> int \<Rightarrow> bytes \<Rightarrow> bytes" where
  "pad_loop i hi buf = (if i < hi then pad_loop (i + 1) hi (buf @ [0xfa]) else buf)"
  by pat_completeness auto
termination
  by (relation "measure (\<lambda>(i, hi, buf). nat (hi - i))") auto

declare pad_loop.simps [simp del]

definition int_hi :: "int \<Rightarrow> byte" where "int_hi n = word_of_int (drop_bit 8 n)"
definition int_lo :: "int \<Rightarrow> byte" where "int_lo n = word_of_int (n AND 0xff)"

definition header_flags :: "header \<Rightarrow> u16" where
  "header_flags head =
     (let flags = ucast L2TPVersion;
          flags = (if isControl head then flags OR flagType else flags);
          flags = (if priority head then flags OR flagPriority else flags);
          flags = (if hlength head \<noteq> 0 then flags OR flagLength else flags);
          flags = (if sequence head then flags OR flagSequence else flags)
      in (if offset head > 0 then flags OR flagOffset else flags))"

definition header_encode :: "header \<Rightarrow> bytes \<Rightarrow> bytes" where
  "header_encode head buf =
     (let start = length buf;
          flags = header_flags head;
          buf = buf @ [0, 0];
          buf = (if hlength head \<noteq> 0
                 then buf @ [int_hi (hlength head), int_lo (hlength head)] else buf);
          buf = buf @ [hi_byte (tunnelID head), lo_byte (tunnelID head)];
          buf = buf @ [hi_byte (sessionID head), lo_byte (sessionID head)];
          buf = (if sequence head
                 then buf @ [hi_byte (ns head), lo_byte (ns head),
                             hi_byte (nr head), lo_byte (nr head)] else buf);
          buf = (if offset head > 0
                 then pad_loop (offset head) (offset head)
                        (buf @ [int_hi (offset head), int_lo (offset head)])
                 else buf)
      in buf[start := hi_byte flags, start + 1 := lo_byte flags])"

section \<open>Attribute-value pairs\<close>

record avpPayload =
  mandatory :: bool
  hidden :: bool
  alength :: int
  vendorID :: u16
  attrType :: u16
  avalue :: bytes

definition flagMandatory :: u16 where "flagMandatory = push_bit (15 - 0) 1"
definition flagHidden :: u16 where "flagHidden = push_bit (15 - 1) 1"

definition parseAVP :: "bytes \<Rightarrow> (l2tp_error, avpPayload \<times> bytes) outcome" where
  "parseAVP buf =
     (if length buf < 6 then Err WrongLengthErr
      else obind (u16_at buf 0) (\<lambda>flags.
           let leng = uint (flags AND 0x3ff)
           in if leng < 6 \<or> int (length buf) < leng then Err WrongLengthErr
              else obind (u16_at buf 2) (\<lambda>vid.
                   obind (u16_at buf 4) (\<lambda>aty.
                   obind (go_slice buf 6 leng) (\<lambda>val.
                   obind (go_slice_from buf leng) (\<lambda>remain.
                   Ok (\<lparr>mandatory = flags AND flagMandatory \<noteq> 0,
                        hidden = flags AND flagHidden \<noteq> 0,
                        alength = leng, vendorID = vid, attrType = aty, avalue = val\<rparr>,
                       remain)))))))"

definition avp_flags :: "avpPayload \<Rightarrow> u16" where
  "avp_flags msg =
     (let flags = (if mandatory msg then 0 OR flagMandatory else 0);
          flags = (if hidden msg then flags OR flagHidden else flags)
      in flags OR (word_of_nat (6 + length (avalue msg)) AND 0x3ff))"

definition avp_encode :: "avpPayload \<Rightarrow> bytes \<Rightarrow> bytes" where
  "avp_encode msg buf =
     (let flags = avp_flags msg;
          buf = buf @ [hi_byte flags, lo_byte flags];
          buf = buf @ [hi_byte (vendorID msg), lo_byte (vendorID msg)];
          buf = buf @ [hi_byte (attrType msg), lo_byte (attrType msg)]
      in buf @ avalue msg)"

section \<open>The datagram handler\<close>

lemma go_slice_from_length:
  "go_slice_from xs lo = Ok ys \<Longrightarrow> int (length ys) = int (length xs) - lo"
  by (auto simp: go_slice_from_def go_slice_def split: if_splits)

lemma parseAVP_shrinks:
  "parseAVP buf = Ok (msg, rest) \<Longrightarrow> length rest + 6 \<le> length buf"
  by (auto simp: parseAVP_def go_simps Let_def split: if_splits dest!: go_slice_from_length)

text \<open>The loop \<open>for len(buf) > 0 { avp, buf, err = parseAVP(buf); ... }\<close>.\<close>

function parse_avps ::
  "avpPayload list \<Rightarrow> bytes \<Rightarrow> (l2tp_error, avpPayload list) outcome" where
  "parse_avps avps buf =
     (if length buf > 0
      then obind (parseAVP buf) (\<lambda>(avp, buf'). parse_avps (avps @ [avp]) buf')
      else Ok avps)"
  by pat_completeness auto
termination
  by (relation "measure (\<lambda>(avps, buf). length buf)") (auto dest: parseAVP_shrinks)

declare parse_avps.simps [simp del]

datatype l2tp_event = Sent bytes | PrintNonControl | LogErr l2tp_error

definition response_to :: "header \<Rightarrow> header" where
  "response_to head =
     \<lparr>isControl = True, priority = False, sequence = True,
      tunnelID = tunnelID head, sessionID = sessionID head,
      ns = ns head + 1, nr = nr head + 1, hlength = 0, offset = 0\<rparr>"

text \<open>\<open>serving.WriteTo\<close> is the parameter \<open>write\<close>: the error it returns, if any.\<close>

definition handle_body ::
  "(bytes \<Rightarrow> string option) \<Rightarrow> bytes \<Rightarrow> (l2tp_error, l2tp_event list) outcome" where
  "handle_body write buf =
     obind (parseHeader buf) (\<lambda>(head, buf).
       if isControl head
       then obind (parse_avps [] buf) (\<lambda>avps.
            obind (go_index avps 0) (\<lambda>_.
              let out = header_encode (response_to head) []
              in case write out of None \<Rightarrow> Ok [Sent out] | Some e \<Rightarrow> Err (NetError e)))
       else Ok [PrintNonControl])"

definition recordErr :: "bool \<Rightarrow> l2tp_error \<Rightarrow> l2tp_event list" where
  "recordErr hasLogger e = (if hasLogger then [LogErr e] else [])"

text \<open>
  The deferred closure of \<open>handle\<close> calls \<open>recoverAsError\<close>, which calls \<open>recover\<close>: depth 1.
  A panic that is not recovered leaves the goroutine and ends the process.
\<close>

definition handle ::
  "bool \<Rightarrow> (bytes \<Rightarrow> string option) \<Rightarrow> bytes \<Rightarrow> (l2tp_error, l2tp_event list) outcome" where
  "handle hasLogger write buf =
     (case handle_body write buf of
        Ok evs \<Rightarrow> Ok evs
      | Err e \<Rightarrow> Ok (recordErr hasLogger e)
      | Panic p \<Rightarrow>
          (case recoverAsError 1 (Some p) of
             Some e \<Rightarrow> Ok (recordErr hasLogger e)
           | None \<Rightarrow> Panic p)
      | Hang \<Rightarrow> Hang)"

datatype read_result = Datagram bytes | ReadError string

text \<open>
  \<open>Serve\<close> over the results of \<open>conn.ReadFrom\<close>, with what the handlers did: each datagram's
  handler is its own goroutine, run here as soon as it is started; with no more datagrams
  the loop blocks.
\<close>

fun serve ::
  "bool \<Rightarrow> (bytes \<Rightarrow> string option) \<Rightarrow> read_result list \<Rightarrow>
   l2tp_event list \<times> (l2tp_error, unit) outcome" where
  "serve hasLogger write [] = ([], Hang)"
| "serve hasLogger write (ReadError e # rs) = ([], Err (NetError e))"
| "serve hasLogger write (Datagram buf # rs) =
     (case handle hasLogger write buf of
        Ok evs \<Rightarrow> (let (evs', r) = serve hasLogger write rs in (evs @ evs', r))
      | Err e \<Rightarrow> ([], Err e)
      | Panic p \<Rightarrow> ([], Panic p)
      | Hang \<Rightarrow> ([], Hang))"

text \<open>\<open>ListenAndServe\<close>: \<open>listen\<close> gives the error of opening the socket, if there is one.
  \<open>Shutdown\<close> does nothing.\<close>

definition DefaultL2TPPort :: string where "DefaultL2TPPort = '':1701''"

definition l2tp_ListenAndServe ::
  "string \<Rightarrow> (string \<Rightarrow> string option) \<Rightarrow> bool \<Rightarrow> (bytes \<Rightarrow> string option) \<Rightarrow> read_result list \<Rightarrow>
   l2tp_event list \<times> (l2tp_error, unit) outcome" where
  "l2tp_ListenAndServe addr listen hasLogger write rs =
     (case listen (if addr = [] then DefaultL2TPPort else addr) of
        Some e \<Rightarrow> ([], Err (NetError e))
      | None \<Rightarrow> serve hasLogger write rs)"

definition l2tp_Shutdown :: "(l2tp_error, unit) outcome" where
  "l2tp_Shutdown = Ok ()"

section \<open>Laws of the fields\<close>

lemma header_flags_tests [simp]:
  "header_flags h AND flagType \<noteq> 0 \<longleftrightarrow> isControl h"
  "header_flags h AND flagPriority \<noteq> 0 \<longleftrightarrow> priority h"
  "header_flags h AND flagLength \<noteq> 0 \<longleftrightarrow> hlength h \<noteq> 0"
  "header_flags h AND flagSequence \<noteq> 0 \<longleftrightarrow> sequence h"
  "header_flags h AND flagOffset \<noteq> 0 \<longleftrightarrow> offset h > 0"
  "(ucast (header_flags h AND 0xf) :: byte) = L2TPVersion"
  by (auto simp: header_flags_def Let_def flag_defs L2TPVersion_def)

lemma be16_int_hi_lo [simp]:
  assumes "0 \<le> n" and "n < 65536"
  shows "be16_int (int_hi n) (int_lo n) = n"
proof -
  have "n div 256 mod 256 = n div 256" using assms by simp
  then show ?thesis
    by (simp add: be16_int_eq int_hi_def int_lo_def uint_word_of_int drop_bit_eq_div
        and_255_int mult_div_mod_eq)
qed

lemma pad_loop_self [simp]: "pad_loop i i buf = buf"
  by (simp add: pad_loop.simps)

text \<open>The bytes of a header, spelled out; the padding loop adds nothing.\<close>

definition header_size :: "header \<Rightarrow> nat" where
  "header_size h = 6 + (if hlength h \<noteq> 0 then 2 else 0) + (if sequence h then 4 else 0)
                   + (if offset h > 0 then 2 else 0)"

lemma header_encode_Nil:
  "header_encode h [] =
     hi_byte (header_flags h) # lo_byte (header_flags h) #
     (if hlength h \<noteq> 0 then [int_hi (hlength h), int_lo (hlength h)] else []) @
     [hi_byte (tunnelID h), lo_byte (tunnelID h), hi_byte (sessionID h), lo_byte (sessionID h)] @
     (if sequence h then [hi_byte (ns h), lo_byte (ns h), hi_byte (nr h), lo_byte (nr h)] else []) @
     (if offset h > 0 then [int_hi (offset h), int_lo (offset h)] else [])"
  by (simp add: header_encode_def Let_def)

lemma length_header_encode: "length (header_encode h []) = header_size h"
  by (simp add: header_encode_Nil header_size_def)

text \<open>
  A header that can be on the wire in front of \<open>payload\<close>: no offset field, sequence numbers
  present on a control message and zero when absent, and a length field that is either absent
  or counts the whole packet.
\<close>

definition header_ok :: "header \<Rightarrow> bytes \<Rightarrow> bool" where
  "header_ok h payload \<longleftrightarrow>
     offset h = 0 \<and> (isControl h \<longrightarrow> sequence h) \<and>
     (\<not> sequence h \<longrightarrow> ns h = 0 \<and> nr h = 0) \<and>
     (hlength h = 0 \<or>
      hlength h = int (header_size h + length payload) \<and> hlength h < 65536)"

lemma parse_length_encoded:
  assumes "header_ok h payload" and "int (length rest) + 4 = hlength h \<or> hlength h = 0"
  shows "parse_length (header_flags h)
           ((if hlength h \<noteq> 0 then [int_hi (hlength h), int_lo (hlength h)] else []) @ rest) =
         Ok (hlength h, rest)"
  using assms
  by (auto simp: parse_length_def header_ok_def go_simps go_slice_def)

lemma parse_encode_header:
  assumes "header_ok h payload"
  shows "parseHeader (header_encode h [] @ payload) = Ok (h, payload)"
proof -
  let ?tail = "hi_byte (tunnelID h) # lo_byte (tunnelID h) # hi_byte (sessionID h) #
     lo_byte (sessionID h) #
     (if sequence h then [hi_byte (ns h), lo_byte (ns h), hi_byte (nr h), lo_byte (nr h)] else [])
     @ payload"
  have len: "int (length ?tail) + 4 = hlength h \<or> hlength h = 0"
    using assms by (auto simp: header_ok_def header_size_def)
  have seq: "parse_sequence (isControl h) (sequence h)
      ((if sequence h then [hi_byte (ns h), lo_byte (ns h), hi_byte (nr h), lo_byte (nr h)]
        else []) @ payload) = Ok (ns h, nr h, payload)"
    using assms by (auto simp: parse_sequence_def header_ok_def go_simps)
  have off: "parse_offset (isControl h) (header_flags h) payload = Ok (0, payload)"
    using assms by (simp add: parse_offset_def header_ok_def)
  show ?thesis
    using assms
    by (simp add: parseHeader_def header_encode_Nil header_ok_def go_simps seq off
        parse_length_encoded [OF assms len, simplified])
qed

lemma and_1023: "(w :: u16) AND 1023 = take_bit 10 w"
proof -
  have "(1023 :: u16) = mask 10" by (simp add: mask_eq_exp_minus_1)
  then show ?thesis by (simp only: take_bit_eq_mask)
qed

lemma take_bit_10_and_flags [simp]:
  "take_bit 10 (w :: u16) AND flagMandatory = 0"
  "take_bit 10 (w :: u16) AND flagHidden = 0"
  "flagMandatory AND (0x3ff :: u16) = 0"
  "flagHidden AND (0x3ff :: u16) = 0"
  "flagMandatory AND flagMandatory \<noteq> 0"
  "flagHidden AND flagHidden \<noteq> 0"
  "flagMandatory AND flagHidden = 0"
  "flagHidden AND flagMandatory = 0"
  "flagMandatory \<noteq> 0"
  "flagHidden \<noteq> 0"
  by (simp_all add: flagMandatory_def flagHidden_def word_bw_assocs flip: and_1023)

lemma avp_flags_tests [simp]:
  "avp_flags m AND flagMandatory \<noteq> 0 \<longleftrightarrow> mandatory m"
  "avp_flags m AND flagHidden \<noteq> 0 \<longleftrightarrow> hidden m"
  by (auto simp: avp_flags_def Let_def and_1023 word_ao_dist word_bw_assocs)

lemma avp_flags_length [simp]:
  "avp_flags m AND 0x3ff = take_bit 10 (word_of_nat (6 + length (avalue m)))"
  by (auto simp: avp_flags_def Let_def word_ao_dist word_bw_assocs)
     (simp_all add: and_1023)

definition avp_ok :: "avpPayload \<Rightarrow> bool" where
  "avp_ok m \<longleftrightarrow> alength m = int (6 + length (avalue m)) \<and> alength m < 1024"

lemma avp_encode_Nil:
  "avp_encode m [] = hi_byte (avp_flags m) # lo_byte (avp_flags m) #
     hi_byte (vendorID m) # lo_byte (vendorID m) #
     hi_byte (attrType m) # lo_byte (attrType m) # avalue m"
  by (simp add: avp_encode_def Let_def)

lemma uint_take_bit_10:
  assumes "n < 1024"
  shows "uint (take_bit 10 (word_of_nat n :: u16)) = int n"
proof -
  have "unat (take_bit 10 (word_of_nat n :: u16)) = n"
    using assms by (simp add: unsigned_take_bit_eq unat_of_nat take_bit_nat_eq_self)
  then show ?thesis by (metis uint_nat)
qed

lemma parse_encode_avp:
  assumes "avp_ok m"
  shows "parseAVP (avp_encode m [] @ rest) = Ok (m, rest)"
proof -
  let ?n = "6 + length (avalue m)"
  have n: "uint (take_bit 10 (word_of_nat ?n :: u16)) = int ?n" "alength m = int ?n"
    using assms uint_take_bit_10 [of ?n] by (auto simp: avp_ok_def)
  have val: "go_slice (avp_encode m [] @ rest) 6 (int ?n) = (Ok (avalue m) :: (l2tp_error, _) outcome)"
    by (simp add: go_slice_def avp_encode_Nil)
  have "length (avp_encode m []) = ?n" by (simp add: avp_encode_Nil)
  then have rem: "go_slice_from (avp_encode m [] @ rest) (int ?n) = (Ok rest :: (l2tp_error, _) outcome)"
    by (subst go_slice_from_Ok) (simp_all flip: \<open>length (avp_encode m []) = ?n\<close>)
  show ?thesis
    using n val rem
    by (simp add: parseAVP_def avp_encode_Nil go_simps Let_def)
qed

lemma parse_avps_encoded:
  assumes "list_all avp_ok ms"
  shows "parse_avps acc (concat (map (\<lambda>m. avp_encode m []) ms)) = Ok (acc @ ms)"
  using assms
proof (induction ms arbitrary: acc)
  case Nil
  then show ?case by (simp add: parse_avps.simps)
next
  case (Cons m ms)
  have "avp_encode m [] \<noteq> []" by (simp add: avp_encode_Nil)
  with Cons show ?case
    by (subst parse_avps.simps) (simp add: parse_encode_avp)
qed

section \<open>When parsing panics\<close>

lemma u16_at_eq:
  "0 \<le> i \<Longrightarrow> u16_at xs i =
     (if i + 1 < int (length xs) then Ok (be16 (xs ! nat i) (xs ! nat (i + 1)))
      else Panic IndexOutOfRange)"
  by (auto simp: u16_at_def go_index_def)

lemma int16_at_eq:
  "0 \<le> i \<Longrightarrow> int16_at xs i =
     (if i + 1 < int (length xs) then Ok (be16_int (xs ! nat i) (xs ! nat (i + 1)))
      else Panic IndexOutOfRange)"
  by (auto simp: int16_at_def go_index_def)

definition wire_flags :: "bytes \<Rightarrow> u16" where
  "wire_flags buf = be16 (buf ! 0) (buf ! 1)"

definition wire_length :: "bytes \<Rightarrow> int" where
  "wire_length buf = be16_int (buf ! 2) (buf ! 3)"

lemma no_panic_parse_sequence:
  "no_panic (parse_sequence c s buf) \<longleftrightarrow> (s \<longrightarrow> 4 \<le> length buf)"
  by (auto simp: parse_sequence_def u16_at_eq go_slice_from_numeral)

lemma parse_offset_absent:
  "flags AND flagOffset = 0 \<Longrightarrow> parse_offset c flags buf = Ok (0, buf)"
  by (simp add: parse_offset_def)

lemma no_panic_obind_Ok:
  "(\<And>x. no_panic (f x)) \<Longrightarrow> no_panic (obind m f) \<longleftrightarrow> no_panic m"
  by (cases m) auto

text \<open>From the tunnel ID on, a header without an offset field needs four or eight bytes.\<close>

lemma no_panic_from_ids:
  assumes "flags AND flagOffset = 0"
  shows "no_panic
    (obind (u16_at buf 0) (\<lambda>tid. obind (u16_at buf 2) (\<lambda>sid.
       obind (go_slice_from buf 4) (\<lambda>buf'.
       obind (parse_sequence c s buf') (\<lambda>(nsv, nrv, buf'').
       obind (parse_offset c flags buf'') (\<lambda>(off, rest).
         Ok (f tid sid nsv nrv off, rest)))))))
    \<longleftrightarrow> (if s then 8 else 4) \<le> length buf"
proof -
  have "no_panic (obind (parse_sequence c s xs) (\<lambda>(nsv, nrv, buf'').
       obind (parse_offset c flags buf'') (\<lambda>(off, rest). Ok (f tid sid nsv nrv off, rest))))
    \<longleftrightarrow> no_panic (parse_sequence c s xs)" for xs tid sid
    by (rule no_panic_obind_Ok) (auto simp: parse_offset_absent [OF assms])
  then show ?thesis
    by (auto simp: u16_at_eq go_slice_from_numeral no_panic_parse_sequence)
qed

lemma parseHeader_unfold:
  assumes "6 \<le> length buf" and "(ucast (wire_flags buf AND 0xf) :: byte) = L2TPVersion"
  shows "parseHeader buf =
    obind (parse_length (wire_flags buf) (drop 2 buf)) (\<lambda>(leng, buf').
      obind (u16_at buf' 0) (\<lambda>tid. obind (u16_at buf' 2) (\<lambda>sid.
      obind (go_slice_from buf' 4) (\<lambda>buf'.
      obind (parse_sequence (wire_flags buf AND flagType \<noteq> 0)
              (wire_flags buf AND flagSequence \<noteq> 0) buf') (\<lambda>(nsv, nrv, buf'').
      obind (parse_offset (wire_flags buf AND flagType \<noteq> 0) (wire_flags buf) buf'')
        (\<lambda>(off, rest).
        Ok (\<lparr>isControl = wire_flags buf AND flagType \<noteq> 0,
             priority = wire_flags buf AND flagPriority \<noteq> 0,
             sequence = wire_flags buf AND flagSequence \<noteq> 0,
             tunnelID = tid, sessionID = sid, ns = nsv, nr = nrv,
             hlength = leng, offset = uint off\<rparr>, rest)))))))"
  using assms
  by (simp add: parseHeader_def u16_at_eq go_slice_from_numeral wire_flags_def Let_def)

lemma parse_length_eq:
  assumes "6 \<le> length buf"
  shows "parse_length flags (drop 2 buf) =
    (if flags AND flagLength = 0 then Ok (0, drop 2 buf)
     else if int (length buf) < wire_length buf then Err WrongLengthErr
     else if wire_length buf < 4 then Panic SliceOutOfRange
     else Ok (wire_length buf, take (nat (wire_length buf) - 4) (drop 4 buf)))"
  using assms
  by (auto simp: parse_length_def int16_at_eq wire_length_def go_slice_def numeral_eq_Suc
      nat_diff_distrib)

section \<open>The handler on encoded packets\<close>

definition encode_avps :: "avpPayload list \<Rightarrow> bytes" where
  "encode_avps ms = concat (map (\<lambda>m. avp_encode m []) ms)"

lemma handle_body_control:
  assumes "header_ok h (encode_avps ms)" and "isControl h" and "list_all avp_ok ms"
  shows "handle_body write (header_encode h [] @ encode_avps ms) =
    (if ms = [] then Panic IndexOutOfRange
     else case write (header_encode (response_to h) []) of
            None \<Rightarrow> Ok [Sent (header_encode (response_to h) [])]
          | Some e \<Rightarrow> Err (NetError e))"
  using assms parse_encode_header [OF assms(1)] parse_avps_encoded [OF assms(3), of "[]"]
  by (auto simp: handle_body_def encode_avps_def go_simps Let_def split: option.splits)

lemma header_ok_response: "header_ok (response_to h) []"
  by (simp add: header_ok_def response_to_def)

lemma handle_cases_Panic: "handle lg write buf = Panic p \<longleftrightarrow> handle_body write buf = Panic p"
  by (auto simp: handle_def recoverAsError_def go_recover_def split: outcome.splits)

lemma handle_Ok: "handle_body write buf = Ok evs \<Longrightarrow> handle lg write buf = Ok evs"
  by (simp add: handle_def)

section \<open>Properties\<close>



text \<open>C32: AVP list round trip. The handler's parsing loop reads back exactly the list of
  attribute-value pairs whose encodings were concatenated, for pairs whose total length fits the
  ten-bit length field, and terminates on every input.\<close>

theorem l2tp_avps_roundtrip:
  assumes "list_all avp_ok ms"
  shows "parse_avps [] (concat (map (\<lambda>m. avp_encode m []) ms)) = Ok ms"
  using parse_avps_encoded [OF assms, of "[]"] by simp

theorem l2tp_avps_roundtrip_witness:
  "parse_avps [] (concat (map (\<lambda>m. avp_encode m [])
     [\<lparr>mandatory = True, hidden = False, alength = 8, vendorID = 0, attrType = 0, avalue = [0, 1]\<rparr>,
      \<lparr>mandatory = False, hidden = True, alength = 6, vendorID = 9, attrType = 7, avalue = []\<rparr>])) =
   Ok [\<lparr>mandatory = True, hidden = False, alength = 8, vendorID = 0, attrType = 0, avalue = [0, 1]\<rparr>,
      \<lparr>mandatory = False, hidden = True, alength = 6, vendorID = 9, attrType = 7, avalue = []\<rparr>]"
  by (rule l2tp_avps_roundtrip) (simp add: avp_ok_def)

text \<open>Panic freedom of header parsing, exactly. On a packet of at least six bytes with the
  supported version and no offset field, \<open>parseHeader\<close> returns (a header or an error) if and only
  if the tunnel and session IDs and the announced sequence numbers fit in what the length field,
  or without one the datagram, leaves for them; otherwise an index or slice is out of range.\<close>

theorem l2tp_parseHeader_no_panic_iff:
  assumes "6 \<le> length buf" and "(ucast (wire_flags buf AND 0xf) :: byte) = L2TPVersion"
    and "wire_flags buf AND flagOffset = 0"
  shows "no_panic (parseHeader buf) \<longleftrightarrow>
    (let need = (if wire_flags buf AND flagSequence \<noteq> 0 then 8 else 4)
     in if wire_flags buf AND flagLength = 0 then need + 2 \<le> length buf
        else int (length buf) < wire_length buf \<or> int need + 4 \<le> wire_length buf)"
proof (cases "wire_flags buf AND flagLength = 0")
  case True
  then show ?thesis
    using assms
    by (auto simp: parseHeader_unfold parse_length_eq no_panic_from_ids)
next
  case False
  then show ?thesis
    using assms
    by (auto simp: parseHeader_unfold parse_length_eq no_panic_from_ids)
qed

theorem l2tp_parseHeader_no_panic_iff_witness:
  "\<not> no_panic (parseHeader [0x40, 0x02, 0, 7, 0, 0, 0, 0])"
  using l2tp_parseHeader_no_panic_iff [of "[0x40, 0x02, 0, 7, 0, 0, 0, 0]"]
  by (simp add: wire_flags_def wire_length_def be16_def be16_int_def flag_defs L2TPVersion_def)

text \<open>The handler answers a well-formed control message that carries at least one AVP with
  one datagram, which parses as the acknowledgement: the same tunnel and session, both sequence
  counters advanced by one (wrapping at 16 bits), no length field and no payload.\<close>

theorem l2tp_control_reply:
  assumes "header_ok h (encode_avps ms)" and "isControl h" and "list_all avp_ok ms" and "ms \<noteq> []"
  shows "\<exists>out. handle lg (\<lambda>_. None) (header_encode h [] @ encode_avps ms) = Ok [Sent out] \<and>
    parseHeader out = Ok (\<lparr>isControl = True, priority = False, sequence = True,
      tunnelID = tunnelID h, sessionID = sessionID h, ns = ns h + 1, nr = nr h + 1,
      hlength = 0, offset = 0\<rparr>, [])"
proof (intro exI conjI)
  show "handle lg (\<lambda>_. None) (header_encode h [] @ encode_avps ms) =
      Ok [Sent (header_encode (response_to h) [])]"
    using assms by (intro handle_Ok) (simp add: handle_body_control)
  show "parseHeader (header_encode (response_to h) []) = Ok (\<lparr>isControl = True,
      priority = False, sequence = True, tunnelID = tunnelID h, sessionID = sessionID h,
      ns = ns h + 1, nr = nr h + 1, hlength = 0, offset = 0\<rparr>, [])"
    using parse_encode_header [OF header_ok_response, of h] by (simp add: response_to_def)
qed

theorem l2tp_control_reply_witness:
  "\<exists>out. handle False (\<lambda>_. None)
     (header_encode \<lparr>isControl = True, priority = False, sequence = True, tunnelID = 1,
        sessionID = 2, ns = 0xfffe, nr = 3, hlength = 0, offset = 0\<rparr> []
      @ encode_avps [\<lparr>mandatory = True, hidden = False, alength = 6, vendorID = 0,
                      attrType = 0, avalue = []\<rparr>]) = Ok [Sent out] \<and>
    parseHeader out = Ok (\<lparr>isControl = True, priority = False, sequence = True,
      tunnelID = 1, sessionID = 2, ns = 0xffff, nr = 4, hlength = 0, offset = 0\<rparr>, [])"
  using l2tp_control_reply [of
      "\<lparr>isControl = True, priority = False, sequence = True, tunnelID = 1,
        sessionID = 2, ns = 0xfffe, nr = 3, hlength = 0, offset = 0\<rparr>"
      "[\<lparr>mandatory = True, hidden = False, alength = 6, vendorID = 0,
         attrType = 0, avalue = []\<rparr>]" False]
  by (simp add: header_ok_def avp_ok_def)

text \<open>C33: A control message without AVPs, such as the zero-length acknowledgement that L2TP peers
  send, ends the service: \<open>avps[0]\<close> panics, the deferred closure's \<open>recoverAsError\<close> does not
  recover it because \<open>recover\<close> is not called by the deferred function itself, and no later
  datagram is read.\<close>

theorem l2tp_empty_control_crashes:
  assumes "header_ok h []" and "isControl h"
  shows "serve lg write (Datagram (header_encode h []) # rs) = ([], Panic IndexOutOfRange)"
proof -
  have "handle_body write (header_encode h []) = Panic IndexOutOfRange"
    using assms handle_body_control [of h "[]"] by (simp add: encode_avps_def)
  then have "handle lg write (header_encode h []) = Panic IndexOutOfRange"
    by (simp add: handle_cases_Panic)
  then show ?thesis by simp
qed

theorem l2tp_empty_control_crashes_witness:
  "serve True (\<lambda>_. None) [Datagram (header_encode \<lparr>isControl = True, priority = False,
      sequence = True, tunnelID = 1, sessionID = 0, ns = 1, nr = 1, hlength = 12,
      offset = 0\<rparr> []), Datagram []] = ([], Panic IndexOutOfRange)"
  by (rule l2tp_empty_control_crashes) (simp_all add: header_ok_def header_size_def)

end
