(* ===== verification/Stack_Buffers.thy ===== *)
theory Stack_Buffers
  imports Go_Prelude
begin

text \<open>
  \<open>getStack\<close> of \<open>l2tp/errors.go\<close>, which fetches the text of a panic's stack through a pool of
  buffers. The pool holds pointers to slice variables: \<open>Get\<close> copies the slice out of the variable, and
  \<open>Put(&buf)\<close> hands in a pointer to the local variable, which the loop then assigns a larger slice. A
  cell is such a variable; what it holds is the address of a buffer. The package never gets as far as
  \<open>getStack\<close>, because its \<open>recover\<close> returns nil (\<open>L2tp\<close>).
\<close>

section \<open>Memory and pool\<close>

record stack_mem =
  sm_cells :: "nat \<Rightarrow> nat"
  sm_bufs :: "nat \<Rightarrow> bytes"
  sm_pool :: "nat list"
  sm_next :: nat

text \<open>A new variable holding the slice at \<open>b\<close>, and a new slice of \<open>n\<close> zero bytes.\<close>

definition new_cell :: "nat \<Rightarrow> stack_mem \<Rightarrow> nat \<times> stack_mem" where
  "new_cell b m = (sm_next m, m\<lparr>sm_cells := (sm_cells m)(sm_next m := b), sm_next := Suc (sm_next m)\<rparr>)"

definition new_buf :: "nat \<Rightarrow> stack_mem \<Rightarrow> nat \<times> stack_mem" where
  "new_buf n m = (sm_next m, m\<lparr>sm_bufs := (sm_bufs m)(sm_next m := replicate n 0), sm_next := Suc (sm_next m)\<rparr>)"

text \<open>\<open>buf := *(stackBufPool.Get().(*[]byte))\<close>.\<close>

definition stack_get :: "nat option \<Rightarrow> stack_mem \<Rightarrow> nat \<times> stack_mem" where
  "stack_get pick m =
     (case pick of
        Some i \<Rightarrow>
          if i < length (sm_pool m)
          then new_cell (sm_cells m (sm_pool m ! i)) (m\<lparr>sm_pool := remove_at i (sm_pool m)\<rparr>)
          else (case new_buf 1024 m of (b, m) \<Rightarrow> new_cell b m)
      | None \<Rightarrow> (case new_buf 1024 m of (b, m) \<Rightarrow> new_cell b m))"

definition buf_of :: "nat \<Rightarrow> stack_mem \<Rightarrow> bytes" where
  "buf_of c m = sm_bufs m (sm_cells m c)"

text \<open>\<open>runtime.Stack\<close> writes as much of the trace \<open>t\<close> as fits.\<close>

definition stack_write :: "bytes \<Rightarrow> nat \<Rightarrow> stack_mem \<Rightarrow> nat \<times> stack_mem" where
  "stack_write t c m =
     (let n = min (length t) (length (buf_of c m))
      in (n, m\<lparr>sm_bufs := (sm_bufs m)(sm_cells m c := take n t @ drop n (buf_of c m))\<rparr>))"

definition stack_put :: "nat \<Rightarrow> stack_mem \<Rightarrow> stack_mem" where
  "stack_put c m = m\<lparr>sm_pool := c # sm_pool m\<rparr>"

text \<open>\<open>buf = make([]byte, len(buf) + 1024)\<close>: the same variable, another slice.\<close>

definition stack_grow :: "nat \<Rightarrow> stack_mem \<Rightarrow> stack_mem" where
  "stack_grow c m =
     (case new_buf (length (buf_of c m) + 1024) m of
        (b, m') \<Rightarrow> m'\<lparr>sm_cells := (sm_cells m')(c := b)\<rparr>)"

section \<open>One goroutine alone\<close>

text \<open>A round of the loop: done with the text, or once more with a larger buffer.\<close>

definition stack_round :: "bytes \<Rightarrow> nat \<Rightarrow> stack_mem \<Rightarrow> bytes option \<times> stack_mem" where
  "stack_round t c m =
     (case stack_write t c m of
        (n, m1) \<Rightarrow>
          if n < length (buf_of c m1) then (Some (take n (buf_of c m1)), stack_put c m1)
          else (None, stack_grow c (stack_put c m1)))"

lemma round_length:
  "stack_round t c m = (None, m') \<Longrightarrow> length (buf_of c m) \<le> length t \<and> length (buf_of c m') = length (buf_of c m) + 1024"
  by (auto simp: stack_round_def stack_write_def stack_grow_def stack_put_def new_buf_def buf_of_def Let_def
      split: if_splits)

function stack_loop :: "bytes \<Rightarrow> nat \<Rightarrow> stack_mem \<Rightarrow> bytes \<times> stack_mem" where
  "stack_loop t c m = (case stack_round t c m of (Some s, m') \<Rightarrow> (s, m') | (None, m') \<Rightarrow> stack_loop t c m')"
  by pat_completeness auto
termination
  by (relation "measure (\<lambda>(t, c, m). length t + 1 - length (buf_of c m))") (auto dest!: round_length [OF sym])

declare stack_loop.simps [simp del]

definition getStack :: "nat option \<Rightarrow> bytes \<Rightarrow> stack_mem \<Rightarrow> bytes \<times> stack_mem" where
  "getStack pick t m = (case stack_get pick m of (c, m') \<Rightarrow> stack_loop t c m')"

lemma round_text: "stack_round t c m = (Some s, m') \<Longrightarrow> s = t"
  by (auto simp: stack_round_def stack_write_def buf_of_def Let_def split: if_splits)

lemma loop_text: "fst (stack_loop t c m) = t"
proof (induction t c m rule: stack_loop.induct)
  case (1 t c m)
  obtain r m' where r: "stack_round t c m = (r, m')" by fastforce
  then show ?case
    using 1 round_text [of t c m] by (subst stack_loop.simps) (cases r; auto)
qed

section \<open>Properties\<close>

text \<open>\<open>getStack\<close> returns the whole trace, however long it is and whatever the pool hands out, as
  long as no other goroutine is in it.\<close>

theorem getStack_whole_trace: "fst (getStack pick t m) = t"
  by (simp add: getStack_def loop_text split: prod.split)

text \<open>Two goroutines in \<open>getStack\<close> can share a buffer. When the trace of the first does not fit,
  it puts a pointer to its own variable into the pool and then gives that variable the larger buffer.
  A second goroutine that takes this pointer gets the very buffer that the first goes on using: what
  the first returns is then overwritten with the second's trace.\<close>

theorem getStack_shared_buffer:
  assumes "1024 \<le> length ta" and "length ta < 2048" and "length tb < 2048"
  shows "\<exists>c m1 m2 c' m3 m4 n m5.
    stack_get None m = (c, m1) \<and> stack_round ta c m1 = (None, m2) \<and>
    stack_get (Some 0) m2 = (c', m3) \<and> c' \<noteq> c \<and> sm_cells m3 c' = sm_cells m3 c \<and>
    stack_write ta c m3 = (n, m4) \<and> n < length (buf_of c m4) \<and> take n (buf_of c m4) = ta \<and>
    stack_write tb c' m4 = (length tb, m5) \<and>
    take n (buf_of c m5) = take n (tb @ drop (length tb) ta)"
  using assms
  by (simp add: stack_get_def new_buf_def new_cell_def stack_round_def stack_write_def stack_put_def stack_grow_def
      buf_of_def Let_def min_absorb1 min_absorb2)

theorem getStack_shared_buffer_witness:
  "\<exists>c m1 m2. stack_get None \<lparr>sm_cells = id, sm_bufs = (\<lambda>_. []), sm_pool = [], sm_next = 0\<rparr> = (c, m1) \<and>
    stack_round (replicate 1500 1) c m1 = (None, m2)"
proof -
  have "1024 \<le> length (replicate 1500 (1 :: byte))" "length (replicate 1500 (1 :: byte)) < 2048"
    "length (replicate 1600 (2 :: byte)) < 2048" by simp_all
  from getStack_shared_buffer [OF this, of "\<lparr>sm_cells = id, sm_bufs = (\<lambda>_. []), sm_pool = [], sm_next = 0\<rparr>"]
  show ?thesis by blast
qed

end
