(* ===== verification/Socks5_Auth.thy ===== *)
theory Socks5_Auth
  imports Go_Prelude "HOL-Library.AList" "HOL-Library.Multiset"
begin

text \<open>
  The user table of \<open>socks5/auth_user.go\<close>. The Go map is an association list with distinct
  keys; the order in which \<open>range\<close> visits it is a parameter of \<open>list_users\<close>. The mutex makes
  each method one step; the 100 microseconds that \<open>Auth\<close> waits are not modelled.
\<close>

section \<open>The table and its methods\<close>

record MemoryUserGuarder =
  users :: "(string \<times> string) list"

definition NewMemoryUserGuarder :: MemoryUserGuarder where
  "NewMemoryUserGuarder = \<lparr>users = []\<rparr>"

definition NewMemoryUserGuarderFromMap ::
  "(string \<times> string) list option \<Rightarrow> ('e, MemoryUserGuarder) outcome" where
  "NewMemoryUserGuarderFromMap m =
     (case m of None \<Rightarrow> Panic (PanicValue ''map cannot be nil'') | Some d \<Rightarrow> Ok \<lparr>users = d\<rparr>)"

definition guard_auth :: "MemoryUserGuarder \<Rightarrow> string \<Rightarrow> string \<Rightarrow> bool" where
  "guard_auth g username password =
     (case map_of (users g) username of None \<Rightarrow> False | Some pswd \<Rightarrow> pswd = password)"

definition list_users :: "(string list \<Rightarrow> string list) \<Rightarrow> MemoryUserGuarder \<Rightarrow> string list" where
  "list_users visit g = visit (map fst (users g))"

definition set_user :: "string \<Rightarrow> string \<Rightarrow> MemoryUserGuarder \<Rightarrow> MemoryUserGuarder" where
  "set_user username password g = g\<lparr>users := AList.update username password (users g)\<rparr>"

definition del_user :: "string \<Rightarrow> MemoryUserGuarder \<Rightarrow> MemoryUserGuarder" where
  "del_user username g = g\<lparr>users := AList.delete username (users g)\<rparr>"

definition guard_wf :: "MemoryUserGuarder \<Rightarrow> bool" where
  "guard_wf g \<longleftrightarrow> distinct (map fst (users g))"

section \<open>The interface\<close>

datatype user_op = SetUser string string | DelUser string

fun op_user :: "user_op \<Rightarrow> string" where
  "op_user (SetUser u p) = u"
| "op_user (DelUser u) = u"

text \<open>What a sequence of operations leaves of one user: the password of the last operation on
  that user, nothing if it was a deletion, and what was there before if there was none.\<close>

fun password_after :: "string option \<Rightarrow> string \<Rightarrow> user_op list \<Rightarrow> string option" where
  "password_after old u [] = old"
| "password_after old u (SetUser v p # ops) = password_after (if v = u then Some p else old) u ops"
| "password_after old u (DelUser v # ops) = password_after (if v = u then None else old) u ops"

locale user_table =
  fixes auth :: "'g \<Rightarrow> string \<Rightarrow> string \<Rightarrow> bool"
    and lookup :: "'g \<Rightarrow> string \<Rightarrow> string option"
    and set_op :: "string \<Rightarrow> string \<Rightarrow> 'g \<Rightarrow> 'g"
    and del_op :: "string \<Rightarrow> 'g \<Rightarrow> 'g"
  assumes auth_lookup: "auth g u p \<longleftrightarrow> lookup g u = Some p"
    and lookup_set: "lookup (set_op u p g) v = (if v = u then Some p else lookup g v)"
    and lookup_del: "lookup (del_op u g) v = (if v = u then None else lookup g v)"
begin

definition step_op :: "'g \<Rightarrow> user_op \<Rightarrow> 'g" where
  "step_op g c = (case c of SetUser u p \<Rightarrow> set_op u p g | DelUser u \<Rightarrow> del_op u g)"

lemma lookup_run: "lookup (foldl step_op g ops) u = password_after (lookup g u) u ops"
proof (induction ops arbitrary: g)
  case Nil
  then show ?case by simp
next
  case (Cons c ops)
  then show ?case
    by (cases c) (simp_all add: step_op_def lookup_set lookup_del eq_commute [of u])
qed

lemma auth_run: "auth (foldl step_op g ops) u p \<longleftrightarrow> password_after (lookup g u) u ops = Some p"
  by (simp add: auth_lookup lookup_run)

end

definition run_op :: "MemoryUserGuarder \<Rightarrow> user_op \<Rightarrow> MemoryUserGuarder" where
  "run_op g c = (case c of SetUser u p \<Rightarrow> set_user u p g | DelUser u \<Rightarrow> del_user u g)"

definition run_ops :: "user_op list \<Rightarrow> MemoryUserGuarder \<Rightarrow> MemoryUserGuarder" where
  "run_ops ops g = foldl run_op g ops"

interpretation guard: user_table guard_auth "\<lambda>g. map_of (users g)" set_user del_user
  by unfold_locales
    (auto simp: guard_auth_def set_user_def del_user_def update_conv' delete_conv' split: option.splits)

lemma run_ops_eq: "run_ops ops g = foldl guard.step_op g ops"
proof -
  have "run_op = guard.step_op"
    by (intro ext) (simp add: run_op_def guard.step_op_def)
  then show ?thesis by (simp add: run_ops_def)
qed

lemma run_op_wf: "guard_wf g \<Longrightarrow> guard_wf (run_op g c)"
  by (cases c)
    (simp_all add: run_op_def guard_wf_def set_user_def del_user_def distinct_update distinct_delete)

lemma run_ops_wf: "guard_wf g \<Longrightarrow> guard_wf (run_ops ops g)"
  unfolding run_ops_def by (induction ops arbitrary: g) (auto intro: run_op_wf)

lemma password_after_other:
  "u \<notin> op_user ` set ops \<Longrightarrow> password_after old u ops = old"
proof (induction ops arbitrary: old)
  case (Cons c ops)
  then show ?case by (cases c) auto
qed simp

section \<open>Properties\<close>

text \<open>Authentication after any history of \<open>SetUser\<close> and \<open>DelUser\<close> calls on a new table: a
  name and password are accepted exactly when the last call about that name was \<open>SetUser\<close> with
  that password, so a deleted or never added name is refused with every password; and
  \<open>ListUsers\<close>, in whatever order it visits the map, names each accepted user once and no other.\<close>

theorem socks_user_table_history:
  assumes "\<And>xs. mset (visit xs) = mset xs"
  shows "(guard_auth (run_ops ops NewMemoryUserGuarder) u p \<longleftrightarrow> password_after None u ops = Some p) \<and>
    distinct (list_users visit (run_ops ops NewMemoryUserGuarder)) \<and>
    set (list_users visit (run_ops ops NewMemoryUserGuarder)) = {v. password_after None v ops \<noteq> None}"
proof -
  let ?g = "run_ops ops NewMemoryUserGuarder"
  have "map_of (users ?g) v = password_after None v ops" for v
    by (simp add: run_ops_eq guard.lookup_run NewMemoryUserGuarder_def)
  then have "fst ` set (users ?g) = {v. password_after None v ops \<noteq> None}"
    by (simp add: dom_map_of_conv_image_fst [symmetric] dom_def)
  moreover have "distinct (map fst (users ?g))"
    using run_ops_wf [of NewMemoryUserGuarder ops] by (simp add: guard_wf_def NewMemoryUserGuarder_def)
  ultimately show ?thesis
    using assms [of "map fst (users ?g)"] mset_eq_setD [OF assms] mset_eq_imp_distinct_iff [OF assms]
    by (simp add: list_users_def run_ops_eq guard.auth_run NewMemoryUserGuarder_def)
qed

theorem socks_user_table_history_witness:
  "guard_auth (run_ops [SetUser ''ann'' ''x'', SetUser ''bob'' ''y'', DelUser ''ann''] NewMemoryUserGuarder)
     ''bob'' ''y'' \<and>
   set (list_users rev (run_ops [SetUser ''ann'' ''x'', SetUser ''bob'' ''y'', DelUser ''ann'']
     NewMemoryUserGuarder)) =
     {v. password_after None v [SetUser ''ann'' ''x'', SetUser ''bob'' ''y'', DelUser ''ann''] \<noteq> None}"
  using socks_user_table_history
    [of rev "[SetUser ''ann'' ''x'', SetUser ''bob'' ''y'', DelUser ''ann'']" "''bob''" "''y''"]
  by simp

end
