(* ===== verification/Go_Io.thy ===== *)
theory Go_Io
  imports Go_Prelude
begin

text \<open>
  Network connections as the code sees them through \<open>io.Reader\<close> and \<open>io.Writer\<close>: the bytes that
  the peer will send and the error that follows them, the bytes written so far, and the results
  of the writes to come (a list of possible errors; writes beyond the list succeed). A program
  that reads and writes is a state transformer with an outcome.
\<close>

section \<open>Sockets\<close>

datatype io_error = EOF | UnexpectedEOF | NetErr string

record sock =
  sk_in :: bytes
  sk_end :: io_error
  sk_out :: bytes
  sk_wres :: "io_error option list"

text \<open>\<open>r.Read\<close> into one byte, and \<open>io.ReadFull\<close> of \<open>n\<close> bytes: an end of file after some of them
  is \<open>ErrUnexpectedEOF\<close>, before any of them \<open>EOF\<close>.\<close>

definition sk_read_byte :: "('a sock_scheme) \<Rightarrow> (io_error, byte) outcome \<times> 'a sock_scheme" where
  "sk_read_byte s =
     (case sk_in s of [] \<Rightarrow> (Err (sk_end s), s) | b # bs \<Rightarrow> (Ok b, s\<lparr>sk_in := bs\<rparr>))"

definition sk_read_full ::
  "nat \<Rightarrow> ('a sock_scheme) \<Rightarrow> (io_error, bytes) outcome \<times> 'a sock_scheme" where
  "sk_read_full n s =
     (if n \<le> length (sk_in s) then (Ok (take n (sk_in s)), s\<lparr>sk_in := drop n (sk_in s)\<rparr>)
      else (Err (if sk_in s \<noteq> [] \<and> sk_end s = EOF then UnexpectedEOF else sk_end s),
            s\<lparr>sk_in := []\<rparr>))"

definition sk_write ::
  "bytes \<Rightarrow> ('a sock_scheme) \<Rightarrow> (io_error, unit) outcome \<times> 'a sock_scheme" where
  "sk_write bs s =
     (case sk_wres s of
        Some e # r \<Rightarrow> (Err e, s\<lparr>sk_wres := r\<rparr>)
      | None # r \<Rightarrow> (Ok (), s\<lparr>sk_wres := r, sk_out := sk_out s @ bs\<rparr>)
      | [] \<Rightarrow> (Ok (), s\<lparr>sk_out := sk_out s @ bs\<rparr>))"

text \<open>\<open>io.Copy(dst, src)\<close>: everything the source still delivers is written; the end of the
  source is no error.\<close>

definition sk_copy ::
  "('a sock_scheme) \<Rightarrow> ('b sock_scheme) \<Rightarrow> (io_error, unit) outcome \<times> 'a sock_scheme \<times> 'b sock_scheme"
  where
  "sk_copy dst src =
     (let (r, dst') = (if sk_in src = [] then (Ok (), dst) else sk_write (sk_in src) dst);
          src' = src\<lparr>sk_in := []\<rparr>
      in (case r of
            Ok _ \<Rightarrow> (if sk_end src = EOF then Ok () else Err (sk_end src), dst', src')
          | _ \<Rightarrow> (r, dst', src')))"

section \<open>Sequencing\<close>

definition sbind ::
  "('s \<Rightarrow> ('e, 'a) outcome \<times> 's) \<Rightarrow> ('a \<Rightarrow> 's \<Rightarrow> ('e, 'b) outcome \<times> 's) \<Rightarrow> 's \<Rightarrow> ('e, 'b) outcome \<times> 's"
  where
  "sbind m f s =
     (case m s of
        (Ok x, s') \<Rightarrow> f x s'
      | (Err e, s') \<Rightarrow> (Err e, s')
      | (Panic p, s') \<Rightarrow> (Panic p, s')
      | (Hang, s') \<Rightarrow> (Hang, s'))"

definition sret :: "'a \<Rightarrow> 's \<Rightarrow> ('e, 'a) outcome \<times> 's" where "sret x s = (Ok x, s)"
definition sfail :: "'e \<Rightarrow> 's \<Rightarrow> ('e, 'a) outcome \<times> 's" where "sfail e s = (Err e, s)"

text \<open>Embedding the errors of the layer below.\<close>

fun map_err :: "('e \<Rightarrow> 'f) \<Rightarrow> ('e, 'a) outcome \<Rightarrow> ('f, 'a) outcome" where
  "map_err g (Ok x) = Ok x"
| "map_err g (Err e) = Err (g e)"
| "map_err g (Panic p) = Panic p"
| "map_err g Hang = Hang"

definition smap_err ::
  "('e \<Rightarrow> 'f) \<Rightarrow> ('s \<Rightarrow> ('e, 'a) outcome \<times> 's) \<Rightarrow> 's \<Rightarrow> ('f, 'a) outcome \<times> 's" where
  "smap_err g m s = (case m s of (r, s') \<Rightarrow> (map_err g r, s'))"

named_theorems io_simps "evaluation of reads, writes and sequencing"

lemma sbind_simps [io_simps]:
  "m s = (Ok x, s') \<Longrightarrow> sbind m f s = f x s'"
  "m s = (Err e, s') \<Longrightarrow> sbind m f s = (Err e, s')"
  "m s = (Panic p, s') \<Longrightarrow> sbind m f s = (Panic p, s')"
  by (simp_all add: sbind_def)

declare sret_def [io_simps] sfail_def [io_simps]

lemma smap_err_simps [io_simps]:
  "m s = (Ok x, s') \<Longrightarrow> smap_err g m s = (Ok x, s')"
  "m s = (Err e, s') \<Longrightarrow> smap_err g m s = (Err (g e), s')"
  by (simp_all add: smap_err_def)

lemma sbind_Ok_iff:
  "sbind m f s = (Ok y, t) \<longleftrightarrow> (\<exists>x s'. m s = (Ok x, s') \<and> f x s' = (Ok y, t))"
  by (auto simp: sbind_def split: prod.splits outcome.splits)

lemma smap_err_Ok_iff: "smap_err g m s = (Ok y, t) \<longleftrightarrow> m s = (Ok y, t)"
  by (cases "m s"; cases "fst (m s)") (auto simp: smap_err_def)

section \<open>Laws of reading and writing\<close>

lemma sk_read_byte_Cons [io_simps]:
  "sk_in s = b # bs \<Longrightarrow> sk_read_byte s = (Ok b, s\<lparr>sk_in := bs\<rparr>)"
  by (simp add: sk_read_byte_def)

lemma sk_read_byte_Nil [io_simps]: "sk_in s = [] \<Longrightarrow> sk_read_byte s = (Err (sk_end s), s)"
  by (simp add: sk_read_byte_def)

lemma sk_read_full_append [io_simps]:
  "sk_in s = xs @ ys \<Longrightarrow> n = length xs \<Longrightarrow> sk_read_full n s = (Ok xs, s\<lparr>sk_in := ys\<rparr>)"
  by (simp add: sk_read_full_def)

lemma sk_write_ok [io_simps]:
  "sk_wres s = [] \<Longrightarrow> sk_write bs s = (Ok (), s\<lparr>sk_out := sk_out s @ bs\<rparr>)"
  by (simp add: sk_write_def)

lemma sk_copy_ok:
  "sk_wres dst = [] \<Longrightarrow> sk_end src = EOF \<Longrightarrow>
   sk_copy dst src = (Ok (), dst\<lparr>sk_out := sk_out dst @ sk_in src\<rparr>, src\<lparr>sk_in := []\<rparr>)"
  by (simp add: sk_copy_def sk_write_ok)

lemma sk_read_frame:
  "sk_read_byte s = (r, s') \<Longrightarrow> sk_out s' = sk_out s \<and> sk_wres s' = sk_wres s \<and> sk_end s' = sk_end s"
  "sk_read_full n s = (r', s'') \<Longrightarrow> sk_out s'' = sk_out s \<and> sk_wres s'' = sk_wres s \<and> sk_end s'' = sk_end s"
  by (auto simp: sk_read_byte_def sk_read_full_def split: list.splits if_splits)

end
