(* ===== verification/Go_Strings.thy ===== *)
theory Go_Strings
  imports Go_Prelude "HOL-Library.Sublist"
begin

text \<open>
  The string routines of the Go standard library that the program calls: byte search,
  substring search, decimal and hexadecimal numerals (\<open>strconv\<close>), \<open>bytes.TrimSpace\<close>,
  the line scanner of \<open>bufio\<close> and \<open>net.SplitHostPort\<close>; and \<open>split\<close> of the repository's
  \<open>utils.go\<close>. Text is a sequence of bytes, so a \<open>char\<close> is a byte of the UTF-8 text.
\<close>

section \<open>Searching\<close>

fun index_byte :: "string \<Rightarrow> char \<Rightarrow> nat option" where
  "index_byte [] b = None"
| "index_byte (c # cs) b = (if c = b then Some 0 else map_option Suc (index_byte cs b))"

definition last_index_byte :: "string \<Rightarrow> char \<Rightarrow> nat option" where
  "last_index_byte s b = map_option (\<lambda>i. length s - 1 - i) (index_byte (rev s) b)"

lemma index_byte_None_iff [simp]: "index_byte s b = None \<longleftrightarrow> b \<notin> set s"
  by (induction s) auto

lemma index_byte_append:
  "b \<notin> set s \<Longrightarrow> index_byte (s @ b # t) b = Some (length s)"
  by (induction s) auto

lemma index_byte_SomeD:
  "index_byte s b = Some i \<Longrightarrow> i < length s \<and> s ! i = b \<and> b \<notin> set (take i s)"
  by (induction s arbitrary: i) (auto split: if_splits)

lemma last_index_byte_None_iff [simp]: "last_index_byte s b = None \<longleftrightarrow> b \<notin> set s"
  by (simp add: last_index_byte_def)

lemma last_index_byte_append:
  "b \<notin> set t \<Longrightarrow> last_index_byte (s @ b # t) b = Some (length s)"
  using index_byte_append [of b "rev t" "rev s"] by (simp add: last_index_byte_def)

fun contains_str :: "string \<Rightarrow> string \<Rightarrow> bool" where
  "contains_str [] sub = (sub = [])"
| "contains_str (c # cs) sub = (take (length sub) (c # cs) = sub \<or> contains_str cs sub)"

lemma contains_str_iff: "contains_str s sub \<longleftrightarrow> (\<exists>u v. s = u @ sub @ v)"
proof (induction s)
  case Nil
  then show ?case by simp
next
  case (Cons c cs)
  have "take (length sub) (c # cs) = sub \<longleftrightarrow> (\<exists>v. c # cs = sub @ v)"
    by (metis append_eq_conv_conj)
  with Cons.IH show ?case
    by (auto simp: Cons_eq_append_conv)
qed

lemma contains_str_prepend: "contains_str s sub \<Longrightarrow> contains_str (u @ s) sub"
  unfolding contains_str_iff by (metis append.assoc)

section \<open>\<open>split\<close> of utils.go\<close>

definition split_str :: "string \<Rightarrow> char \<Rightarrow> string \<times> string" where
  "split_str s b =
     (case index_byte s b of
        Some i \<Rightarrow> (take i s, drop (i + 1) s)
      | None \<Rightarrow> (s, []))"

lemma split_str_append [simp]:
  "b \<notin> set s \<Longrightarrow> split_str (s @ b # t) b = (s, t)"
  by (simp add: split_str_def index_byte_append)

lemma split_str_none [simp]: "b \<notin> set s \<Longrightarrow> split_str s b = (s, [])"
  by (simp add: split_str_def index_byte_None_iff [THEN iffD2])

lemma split_str_join:
  "b \<in> set s \<Longrightarrow> fst (split_str s b) @ b # snd (split_str s b) = s"
  by (auto simp: split_str_def dest!: index_byte_SomeD id_take_nth_drop split: option.splits)

section \<open>Numerals\<close>

definition digit_char :: "nat \<Rightarrow> char" where
  "digit_char d = char_of (if d < 10 then 48 + d else 87 + d)"

definition digit_val :: "char \<Rightarrow> nat option" where
  "digit_val c =
     (let n = of_char c :: nat
      in if 48 \<le> n \<and> n \<le> 57 then Some (n - 48)
         else if 97 \<le> n \<and> n \<le> 102 then Some (n - 87)
         else if 65 \<le> n \<and> n \<le> 70 then Some (n - 55)
         else None)"

definition base_digit :: "nat \<Rightarrow> char \<Rightarrow> nat option" where
  "base_digit b c =
     (case digit_val c of Some d \<Rightarrow> (if d < b then Some d else None) | None \<Rightarrow> None)"

lemma digit_val_char [simp]: "d < 16 \<Longrightarrow> digit_val (digit_char d) = Some d"
  by (auto simp: digit_val_def digit_char_def)

lemma base_digit_char [simp]: "d < b \<Longrightarrow> b \<le> 16 \<Longrightarrow> base_digit b (digit_char d) = Some d"
  by (simp add: base_digit_def)

function show_base :: "nat \<Rightarrow> nat \<Rightarrow> string" where
  "show_base b n =
     (if b < 2 \<or> n < b then [digit_char n]
      else show_base b (n div b) @ [digit_char (n mod b)])"
  by pat_completeness auto
termination
  by (relation "measure snd") auto

declare show_base.simps [simp del]

abbreviation itoa :: "nat \<Rightarrow> string" where "itoa n \<equiv> show_base 10 n"

fun read_digits :: "nat \<Rightarrow> nat \<Rightarrow> string \<Rightarrow> nat option" where
  "read_digits b acc [] = Some acc"
| "read_digits b acc (c # cs) =
     (case base_digit b c of None \<Rightarrow> None | Some d \<Rightarrow> read_digits b (acc * b + d) cs)"

lemma read_digits_append:
  "read_digits b acc (s @ t) =
     (case read_digits b acc s of None \<Rightarrow> None | Some n \<Rightarrow> read_digits b n t)"
  by (induction s arbitrary: acc) (auto split: option.splits)

lemma read_digits_show_base:
  assumes "2 \<le> b" and "b \<le> 16"
  shows "read_digits b 0 (show_base b n) = Some n"
  using assms
proof (induction b n rule: show_base.induct)
  case (1 b n)
  show ?case
  proof (cases "n < b")
    case True
    with "1.prems" show ?thesis by (subst show_base.simps) simp
  next
    case False
    with 1 have "read_digits b 0 (show_base b (n div b)) = Some (n div b)" by simp
    with False "1.prems" show ?thesis
      by (subst show_base.simps) (simp add: read_digits_append)
  qed
qed

lemma show_base_not_Nil [simp]: "show_base b n \<noteq> []"
  by (subst show_base.simps) simp

lemma set_show_base:
  assumes "2 \<le> b" and "b \<le> 16"
  shows "set (show_base b n) \<subseteq> digit_char ` {..<b}"
  using assms
proof (induction b n rule: show_base.induct)
  case (1 b n)
  then show ?case by (subst show_base.simps) (auto split: if_splits)
qed

text \<open>A digit is none of the separators of addresses and commands.\<close>

lemma digit_char_notin:
  assumes "digit_val c = None" and "2 \<le> b" and "b \<le> 16"
  shows "c \<notin> set (show_base b n)"
  using set_show_base [OF assms(2,3), of n] assms(1,3) by auto

subsection \<open>\<open>strconv.ParseUint(s, 10, 16)\<close>\<close>

datatype num_error = ErrSyntax | ErrRange

fun parse_uint_loop :: "nat \<Rightarrow> nat \<Rightarrow> string \<Rightarrow> num_error + nat" where
  "parse_uint_loop mx acc [] = Inr acc"
| "parse_uint_loop mx acc (c # cs) =
     (case base_digit 10 c of
        None \<Rightarrow> Inl ErrSyntax
      | Some d \<Rightarrow> (let n = acc * 10 + d
                  in if n > mx then Inl ErrRange else parse_uint_loop mx n cs))"

definition parse_uint16 :: "string \<Rightarrow> num_error + nat" where
  "parse_uint16 s = (if s = [] then Inl ErrSyntax else parse_uint_loop 65535 0 s)"

lemma read_digits_mono: "read_digits b acc s = Some n \<Longrightarrow> 1 \<le> b \<Longrightarrow> acc \<le> n"
proof (induction s arbitrary: acc)
  case Nil
  then show ?case by simp
next
  case (Cons c cs)
  then obtain d where "base_digit b c = Some d" and "acc * b + d \<le> n"
    by (auto split: option.splits)
  moreover have "acc \<le> acc * b + d" using Cons.prems(2)
    by (metis mult.right_neutral mult_le_mono2 trans_le_add1)
  ultimately show ?case by simp
qed

lemma parse_uint_loop_read:
  "read_digits 10 acc s = Some n \<Longrightarrow> n \<le> mx \<Longrightarrow> parse_uint_loop mx acc s = Inr n"
proof (induction s arbitrary: acc)
  case Nil
  then show ?case by simp
next
  case (Cons c cs)
  then obtain d where d: "base_digit 10 c = Some d" "read_digits 10 (acc * 10 + d) cs = Some n"
    by (auto split: option.splits)
  with read_digits_mono have "acc * 10 + d \<le> n" by simp
  with Cons d show ?case by simp
qed

lemma parse_uint16_itoa [simp]: "n < 65536 \<Longrightarrow> parse_uint16 (itoa n) = Inr n"
  by (simp add: parse_uint16_def parse_uint_loop_read read_digits_show_base)

lemma parse_uint_loop_bound: "parse_uint_loop mx acc s = Inr n \<Longrightarrow> acc \<le> mx \<Longrightarrow> n \<le> mx"
  by (induction s arbitrary: acc) (auto simp: Let_def split: option.splits if_splits)

lemma parse_uint16_bound: "parse_uint16 s = Inr n \<Longrightarrow> n < 65536"
  using parse_uint_loop_bound [of 65535 0 s n] by (auto simp: parse_uint16_def split: if_splits)

section \<open>\<open>net.SplitHostPort\<close>\<close>

datatype addr_error =
    MissingPort | TooManyColons | MissingClose | UnexpectedOpen | UnexpectedClose

text \<open>The last checks, on the parts where no bracket may occur, and the result.\<close>

definition split_checked ::
  "string \<Rightarrow> nat \<Rightarrow> string \<Rightarrow> nat \<Rightarrow> nat \<Rightarrow> addr_error + string \<times> string" where
  "split_checked hp i host j k =
     (if CHR ''['' \<in> set (drop j hp) then Inl UnexpectedOpen
      else if CHR '']'' \<in> set (drop k hp) then Inl UnexpectedClose
      else Inr (host, drop (i + 1) hp))"

definition split_host_port :: "string \<Rightarrow> addr_error + string \<times> string" where
  "split_host_port hp =
     (case last_index_byte hp (CHR '':'') of
        None \<Rightarrow> Inl MissingPort
      | Some i \<Rightarrow>
          if hd hp = CHR ''['' then
            (case index_byte hp (CHR '']'') of
               None \<Rightarrow> Inl MissingClose
             | Some e \<Rightarrow>
                 if e + 1 = length hp then Inl MissingPort
                 else if e + 1 = i then split_checked hp i (drop 1 (take e hp)) 1 (e + 1)
                 else if hp ! (e + 1) = CHR '':'' then Inl TooManyColons
                 else Inl MissingPort)
          else (let host = take i hp
                in if CHR '':'' \<in> set host then Inl TooManyColons
                   else split_checked hp i host 0 0))"

lemma split_host_port_plain:
  assumes "CHR '':'' \<notin> set host \<union> set port" and "CHR ''['' \<notin> set host \<union> set port"
    and "CHR '']'' \<notin> set host \<union> set port"
  shows "split_host_port (host @ CHR '':'' # port) = Inr (host, port)"
proof -
  have "hd (host @ CHR '':'' # port) \<noteq> CHR ''[''"
    using assms(2) by (cases host) auto
  then show ?thesis
    using assms
    by (auto simp: split_host_port_def split_checked_def last_index_byte_append Let_def)
qed

lemma split_host_port_bracket:
  assumes "CHR '':'' \<notin> set port" and "CHR ''['' \<notin> set host \<union> set port"
    and "CHR '']'' \<notin> set host \<union> set port"
  shows "split_host_port (CHR ''['' # host @ CHR '']'' # CHR '':'' # port) = Inr (host, port)"
proof -
  let ?hp = "CHR ''['' # host @ CHR '']'' # CHR '':'' # port"
  have i: "last_index_byte ?hp (CHR '':'') = Some (length host + 2)"
    using last_index_byte_append [of "CHR '':''" port "CHR ''['' # host @ [CHR '']'']"] assms
    by simp
  have e: "index_byte ?hp (CHR '']'') = Some (length host + 1)"
    using index_byte_append [of "CHR '']''" "CHR ''['' # host" "CHR '':'' # port"] assms
    by simp
  show ?thesis
    using assms i e by (simp add: split_host_port_def split_checked_def)
qed

section \<open>\<open>bytes.TrimSpace\<close>\<close>

text \<open>The UTF-8 encodings of the runes that \<open>unicode.IsSpace\<close> accepts: the ASCII blanks,
  U+0085, U+00A0, U+1680, U+2000 to U+200A, U+2028, U+2029, U+202F, U+205F and U+3000.\<close>

definition space_seqs :: "string list" where
  "space_seqs = map (map char_of)
     ([[9], [10], [11], [12], [13], [32], [0xC2, 0x85], [0xC2, 0xA0], [0xE1, 0x9A, 0x80]]
      @ map (\<lambda>i. [0xE2, 0x80, 0x80 + i]) [0..<11]
      @ [[0xE2, 0x80, 0xA8], [0xE2, 0x80, 0xA9], [0xE2, 0x80, 0xAF], [0xE2, 0x81, 0x9F],
         [0xE3, 0x80, 0x80 :: nat]])"

lemma space_seqs_not_Nil: "w \<in> set space_seqs \<Longrightarrow> w \<noteq> []"
  by (auto simp: space_seqs_def)

fun strip_seq :: "string list \<Rightarrow> string \<Rightarrow> string option" where
  "strip_seq [] s = None"
| "strip_seq (w # ws) s =
     (if w \<noteq> [] \<and> take (length w) s = w then Some (drop (length w) s) else strip_seq ws s)"

lemma strip_seq_shrinks: "strip_seq ws s = Some t \<Longrightarrow> length t < length s"
proof (induction ws)
  case Nil
  then show ?case by simp
next
  case (Cons w ws)
  show ?case
  proof (cases "w \<noteq> [] \<and> take (length w) s = w")
    case True
    then have "s \<noteq> []" by auto
    with True Cons.prems show ?thesis by auto
  next
    case False
    with Cons show ?thesis by auto
  qed
qed

function trim_left :: "string list \<Rightarrow> string \<Rightarrow> string" where
  "trim_left ws s = (case strip_seq ws s of None \<Rightarrow> s | Some t \<Rightarrow> trim_left ws t)"
  by pat_completeness auto
termination
  by (relation "measure (\<lambda>(ws, s). length s)") (auto dest: strip_seq_shrinks)

declare trim_left.simps [simp del]

definition trim_space :: "string \<Rightarrow> string" where
  "trim_space s = rev (trim_left (map rev space_seqs) (rev (trim_left space_seqs s)))"

text \<open>Text that neither starts nor ends with a blank is left alone.\<close>

definition plain_char :: "char \<Rightarrow> bool" where
  "plain_char c \<longleftrightarrow> (let n = of_char c :: nat in 33 \<le> n \<and> n < 127)"

lemma strip_seq_None:
  assumes "\<And>w. w \<in> set ws \<Longrightarrow> w \<noteq> [] \<Longrightarrow> \<not> plain_char (hd w)" and "plain_char c"
  shows "strip_seq ws (c # s) = None"
  using assms(1)
proof (induction ws)
  case Nil
  then show ?case by simp
next
  case (Cons w ws)
  have "\<not> (w \<noteq> [] \<and> take (length w) (c # s) = w)"
  proof
    assume w: "w \<noteq> [] \<and> take (length w) (c # s) = w"
    then have "hd w = c" by (cases w) auto
    with w Cons.prems assms(2) show False by auto
  qed
  with Cons show ?case by auto
qed

lemma space_seqs_hd: "w \<in> set space_seqs \<Longrightarrow> \<not> plain_char (hd w) \<and> \<not> plain_char (last w)"
  by (auto simp: space_seqs_def plain_char_def)

lemma trim_space_plain:
  assumes "s \<noteq> []" and "plain_char (hd s)" and "plain_char (last s)"
  shows "trim_space s = s"
proof -
  have l: "trim_left space_seqs s = s"
    using assms strip_seq_None [of space_seqs "hd s" "tl s"] space_seqs_hd
    by (subst trim_left.simps) auto
  have "strip_seq (map rev space_seqs) (rev s) = None"
    using assms strip_seq_None [of "map rev space_seqs" "last s" "tl (rev s)"] space_seqs_hd
    by (auto simp: hd_rev simp flip: hd_rev)
  then have "trim_left (map rev space_seqs) (rev s) = rev s"
    by (subst trim_left.simps) simp
  with l show ?thesis by (simp add: trim_space_def)
qed

lemma trim_space_Nil [simp]: "trim_space [] = []"
proof -
  have "strip_seq ws [] = None" for ws by (induction ws) auto
  then show ?thesis by (simp add: trim_space_def trim_left.simps)
qed

section \<open>\<open>bufio.Scanner\<close> with \<open>ScanLines\<close>\<close>

text \<open>
  A line ends at a newline or at the end of the text and loses one trailing carriage return.
  A line of 65536 bytes or more fills the scanner's buffer: \<open>Scan\<close> returns false there, as it
  does at the end, and only \<open>sc.Err()\<close> tells the two apart.
\<close>

abbreviation LF :: char where "LF \<equiv> CHR 0x0A"
abbreviation CR :: char where "CR \<equiv> CHR 0x0D"

definition MaxScanTokenSize :: nat where "MaxScanTokenSize = 65536"

definition dropCR :: "string \<Rightarrow> string" where
  "dropCR s = (if s \<noteq> [] \<and> last s = CR then butlast s else s)"

function scan_lines :: "string \<Rightarrow> string list" where
  "scan_lines s =
     (if s = [] then []
      else let line = takeWhile (\<lambda>c. c \<noteq> LF) s; rest = dropWhile (\<lambda>c. c \<noteq> LF) s
           in if MaxScanTokenSize \<le> length line then []
              else dropCR line # (if rest = [] then [] else scan_lines (tl rest)))"
  by pat_completeness auto
termination
proof (relation "measure length")
  fix s line rest :: string
  assume "s \<noteq> []" and rest: "rest = dropWhile (\<lambda>c. c \<noteq> LF) s"
  have "length rest \<le> length s" unfolding rest by (rule length_dropWhile_le)
  then have "length (tl rest) < length s"
    using \<open>s \<noteq> []\<close> by (cases s) auto
  then show "(tl rest, s) \<in> measure length" by simp
qed simp_all

declare scan_lines.simps [simp del]

lemma scan_lines_Nil [simp]: "scan_lines [] = []"
  by (simp add: scan_lines.simps)

lemma scan_lines_line:
  assumes "LF \<notin> set l" and "length l < MaxScanTokenSize"
  shows "scan_lines (l @ LF # rest) = dropCR l # scan_lines rest"
proof -
  have "takeWhile (\<lambda>c. c \<noteq> LF) (l @ LF # rest) = l"
    using assms(1) by (subst takeWhile_append2) auto
  moreover have "dropWhile (\<lambda>c. c \<noteq> LF) (l @ LF # rest) = LF # rest"
    using assms(1) by (subst dropWhile_append2) auto
  ultimately show ?thesis
    using assms(2) by (subst scan_lines.simps) simp
qed

lemma scan_lines_long:
  assumes "LF \<notin> set l" and "MaxScanTokenSize \<le> length l"
  shows "scan_lines (l @ LF # rest) = []"
proof -
  have "takeWhile (\<lambda>c. c \<noteq> LF) (l @ LF # rest) = l"
    using assms(1) by (subst takeWhile_append2) auto
  then show ?thesis
    using assms(2) by (subst scan_lines.simps) simp
qed

end
