(* ===== verification/Go_Netip.thy ===== *)
theory Go_Netip
  imports Go_Strings
begin

text \<open>
  The types of Go's \<open>net/netip\<close> that the program computes with: addresses, prefixes and
  address-port pairs, their text forms and their parsers. An IPv4 address is a 32-bit word, an
  IPv6 address a 128-bit word with its zone (empty for none); the zero \<open>Addr\<close> is \<open>ZeroAddr\<close>.
  Parse errors carry no message here: the program only passes them on.
\<close>

section \<open>Words as sequences of smaller words\<close>

fun split_word :: "nat \<Rightarrow> 'a::len word \<Rightarrow> 'b::len word list" where
  "split_word 0 w = []"
| "split_word (Suc n) w = split_word n (drop_bit LENGTH('b) w) @ [ucast w]"

definition join_words :: "'b::len word list \<Rightarrow> 'a::len word" where
  "join_words gs = foldl (\<lambda>acc g. push_bit LENGTH('b) acc OR ucast g) 0 gs"

lemma length_split_word [simp]: "length (split_word n w) = n"
  by (induction n arbitrary: w) auto

lemma join_words_snoc:
  "join_words (gs @ [g :: 'b::len word]) = push_bit LENGTH('b) (join_words gs) OR ucast g"
  by (simp add: join_words_def)

lemma join_split_word:
  "drop_bit (n * LENGTH('b)) w = 0 \<Longrightarrow> join_words (split_word n w :: 'b::len word list) = w"
proof (induction n arbitrary: w)
  case 0
  then show ?case by (simp add: join_words_def)
next
  case (Suc n)
  have "drop_bit (n * LENGTH('b)) (drop_bit LENGTH('b) w) = 0"
    using Suc.prems by (simp add: drop_bit_drop_bit add.commute)
  then have "join_words (split_word n (drop_bit LENGTH('b) w) :: 'b word list) = drop_bit LENGTH('b) w"
    by (rule Suc.IH)
  then have "join_words (split_word (Suc n) w :: 'b word list) =
      push_bit LENGTH('b) (drop_bit LENGTH('b) w) OR ucast (ucast w :: 'b word)"
    by (simp add: join_words_snoc)
  also have "\<dots> = w"
    by (rule bit_word_eqI) (auto simp: bit_simps)
  finally show ?case .
qed

lemma bit_join_words_upper:
  "bit (join_words gs :: 'a::len word) n \<Longrightarrow> n < length (gs :: 'b::len word list) * LENGTH('b)"
proof (induction gs arbitrary: n rule: rev_induct)
  case Nil
  then show ?case by (simp add: join_words_def)
next
  case (snoc g gs)
  then show ?case
  proof (cases "LENGTH('b) \<le> n \<and> bit (join_words gs :: 'a word) (n - LENGTH('b))")
    case True
    then have "n - LENGTH('b) < length gs * LENGTH('b)" using snoc.IH by blast
    with True show ?thesis by simp
  next
    case False
    with snoc.prems have "bit (ucast g :: 'a word) n"
      by (auto simp: join_words_snoc bit_simps)
    then have "n < LENGTH('b)" by (auto simp: bit_simps dest: bit_imp_le_length)
    then show ?thesis by simp
  qed
qed

lemma split_join_words:
  assumes "length gs * LENGTH('b) \<le> LENGTH('a)"
  shows "split_word (length gs) (join_words gs :: 'a::len word) = (gs :: 'b::len word list)"
  using assms
proof (induction gs rule: rev_induct)
  case Nil
  then show ?case by simp
next
  case (snoc g gs)
  let ?w = "join_words gs :: 'a word"
  have up: "n + LENGTH('b) < LENGTH('a)" if "bit ?w n" for n
    using bit_join_words_upper [OF that] snoc.prems by simp
  have "drop_bit LENGTH('b) (push_bit LENGTH('b) ?w OR ucast g) = ?w"
    by (rule bit_word_eqI)
       (auto simp: bit_simps add.commute dest: up bit_imp_le_length)
  moreover have "ucast (push_bit LENGTH('b) ?w OR ucast g) = g"
    using snoc.prems by (intro bit_word_eqI) (auto simp: bit_simps)
  ultimately show ?case
    using snoc by (simp add: join_words_snoc)
qed

section \<open>Addresses\<close>

datatype netip_addr = ZeroAddr | V4 "32 word" | V6 "128 word" string

definition bit_len :: "netip_addr \<Rightarrow> nat" where
  "bit_len a = (case a of ZeroAddr \<Rightarrow> 0 | V4 _ \<Rightarrow> 32 | V6 _ _ \<Rightarrow> 128)"

definition is4in6 :: "128 word \<Rightarrow> bool" where
  "is4in6 w \<longleftrightarrow> drop_bit 32 w = 0xffff"

definition map4in6 :: "32 word \<Rightarrow> 128 word" where
  "map4in6 w = push_bit 32 0xffff OR ucast w"

definition unmap :: "netip_addr \<Rightarrow> netip_addr" where
  "unmap a = (case a of V6 w z \<Rightarrow> (if is4in6 w then V4 (ucast w) else a) | _ \<Rightarrow> a)"

definition has_zone :: "netip_addr \<Rightarrow> bool" where
  "has_zone a = (case a of V6 _ z \<Rightarrow> z \<noteq> [] | _ \<Rightarrow> False)"

definition without_zone :: "netip_addr \<Rightarrow> netip_addr" where
  "without_zone a = (case a of V6 w _ \<Rightarrow> V6 w [] | _ \<Rightarrow> a)"

definition as_slice :: "netip_addr \<Rightarrow> bytes" where
  "as_slice a = (case a of ZeroAddr \<Rightarrow> [] | V4 w \<Rightarrow> split_word 4 w | V6 w _ \<Rightarrow> split_word 16 w)"

lemma is4in6_map [simp]: "is4in6 (map4in6 w)"
proof -
  have "drop_bit 32 (push_bit 32 (0xffff :: 128 word) OR ucast w) = 0xffff"
  proof -
    have "drop_bit 32 (ucast w :: 128 word) = 0"
      by (rule bit_word_eqI) (auto simp: bit_simps dest: bit_imp_le_length)
    then show ?thesis by simp
  qed
  then show ?thesis by (simp add: is4in6_def map4in6_def)
qed

lemma ucast_map4in6 [simp]: "ucast (map4in6 w) = w"
proof -
  have "(ucast (push_bit 32 (0xffff :: 128 word)) :: 32 word) = 0" by simp
  moreover have "ucast (a OR b) = (ucast a OR ucast b :: 32 word)" for a b :: "128 word"
    by (rule bit_word_eqI) (auto simp: bit_simps)
  moreover have "(ucast (ucast w :: 128 word) :: 32 word) = w"
    by (rule bit_word_eqI) (auto simp: bit_simps)
  ultimately show ?thesis by (simp only: map4in6_def or.left_neutral)
qed

lemma unmap_map4in6 [simp]: "unmap (V6 (map4in6 w) z) = V4 w"
  by (simp add: unmap_def)

lemma unmap_V4 [simp]: "unmap (V4 w) = V4 w"
  by (simp add: unmap_def)

lemma unmap_idem [simp]: "unmap (unmap a) = unmap a"
  by (auto simp: unmap_def split: netip_addr.splits)

section \<open>Prefixes\<close>

text \<open>The library's representation: the bit count plus one, zero for an invalid prefix.\<close>

record netip_prefix =
  pfx_ip :: netip_addr
  pfx_bits1 :: nat

definition zero_prefix :: netip_prefix where
  "zero_prefix = \<lparr>pfx_ip = ZeroAddr, pfx_bits1 = 0\<rparr>"

definition prefix_from :: "netip_addr \<Rightarrow> int \<Rightarrow> netip_prefix" where
  "prefix_from ip bits =
     \<lparr>pfx_ip = without_zone ip,
      pfx_bits1 = (if ip \<noteq> ZeroAddr \<and> 0 \<le> bits \<and> bits \<le> int (bit_len ip)
                   then nat bits + 1 else 0)\<rparr>"

definition pfx_valid :: "netip_prefix \<Rightarrow> bool" where
  "pfx_valid p \<longleftrightarrow> 0 < pfx_bits1 p"

definition pfx_bits :: "netip_prefix \<Rightarrow> nat" where
  "pfx_bits p = pfx_bits1 p - 1"

definition is_single_ip :: "netip_prefix \<Rightarrow> bool" where
  "is_single_ip p \<longleftrightarrow> pfx_valid p \<and> pfx_bits p = bit_len (pfx_ip p)"

text \<open>The mask that keeps the first \<open>n\<close> bits of a word.\<close>

definition high_mask :: "nat \<Rightarrow> 'a::len word" where
  "high_mask n = push_bit (LENGTH('a) - n) (mask n)"

definition pfx_contains :: "netip_prefix \<Rightarrow> netip_addr \<Rightarrow> bool" where
  "pfx_contains p ip =
     (if \<not> pfx_valid p \<or> has_zone ip then False
      else (case (pfx_ip p, ip) of
              (V4 b, V4 a) \<Rightarrow> drop_bit (32 - pfx_bits p) (a XOR b) = 0
            | (V6 b _, V6 a _) \<Rightarrow> (a XOR b) AND high_mask (pfx_bits p) = 0
            | _ \<Rightarrow> False))"

text \<open>\<open>Addr.Prefix\<close>: the address with the bits after the first \<open>b\<close> cleared.\<close>

definition addr_prefix :: "netip_addr \<Rightarrow> int \<Rightarrow> netip_prefix option" where
  "addr_prefix ip b =
     (if b < 0 then None
      else (case ip of
              ZeroAddr \<Rightarrow> Some zero_prefix
            | V4 w \<Rightarrow> (if b > 32 then None
                       else Some (prefix_from (V4 (w AND high_mask (nat b))) b))
            | V6 w z \<Rightarrow> (if b > 128 then None
                         else Some (prefix_from (V6 (w AND high_mask (nat b)) z) b))))"

section \<open>Text forms\<close>

definition show4 :: "32 word \<Rightarrow> string" where
  "show4 w =
     (case split_word 4 w :: bytes of
        [a, b, c, d] \<Rightarrow> itoa (unat a) @ ''.'' @ itoa (unat b) @ ''.'' @ itoa (unat c) @ ''.''
                        @ itoa (unat d)
      | _ \<Rightarrow> [])"

abbreviation hex :: "16 word \<Rightarrow> string" where "hex g \<equiv> show_base 16 (unat g)"

text \<open>The longest run of at least two zero groups, the first of equal ones; 255 for none.\<close>

definition zero_run :: "16 word list \<Rightarrow> nat \<times> nat" where
  "zero_run gs =
     foldl (\<lambda>(zs, ze) i.
        let l = length (takeWhile (\<lambda>g. g = 0) (drop i gs))
        in if 2 \<le> l \<and> l > ze - zs then (i, i + l) else (zs, ze)) (255, 255) [0..<8]"

function show6_from :: "16 word list \<Rightarrow> nat \<Rightarrow> nat \<Rightarrow> nat \<Rightarrow> string" where
  "show6_from gs zs ze i =
     (if 8 \<le> i then []
      else if i = zs then
        ''::'' @ (if 8 \<le> ze \<or> ze < i then [] else hex (gs ! ze) @ show6_from gs zs ze (ze + 1))
      else (if 0 < i then '':'' else []) @ hex (gs ! i) @ show6_from gs zs ze (i + 1))"
  by pat_completeness auto
termination
  by (relation "measure (\<lambda>(gs, zs, ze, i). 8 - i)") auto

declare show6_from.simps [simp del]

definition show6 :: "128 word \<Rightarrow> string" where
  "show6 w = (let gs = split_word 8 w; (zs, ze) = zero_run gs in show6_from gs zs ze 0)"

definition with_zone_text :: "string \<Rightarrow> string \<Rightarrow> string" where
  "with_zone_text s z = (if z = [] then s else s @ ''%'' @ z)"

definition show_v6 :: "128 word \<Rightarrow> string" where
  "show_v6 w = (if is4in6 w then ''::ffff:'' @ show4 (ucast w) else show6 w)"

definition addr_string :: "netip_addr \<Rightarrow> string" where
  "addr_string a =
     (case a of ZeroAddr \<Rightarrow> ''invalid IP'' | V4 w \<Rightarrow> show4 w
      | V6 w z \<Rightarrow> with_zone_text (show_v6 w) z)"

definition addr_marshal :: "netip_addr \<Rightarrow> string" where
  "addr_marshal a = (case a of ZeroAddr \<Rightarrow> [] | _ \<Rightarrow> addr_string a)"

definition addrport_string :: "netip_addr \<Rightarrow> u16 \<Rightarrow> string" where
  "addrport_string a port =
     (case a of
        ZeroAddr \<Rightarrow> ''invalid AddrPort''
      | V4 w \<Rightarrow> show4 w @ '':'' @ itoa (unat port)
      | V6 _ _ \<Rightarrow> ''['' @ addr_string a @ '']:'' @ itoa (unat port))"

definition pfx_marshal :: "netip_prefix \<Rightarrow> string" where
  "pfx_marshal p =
     (if p = zero_prefix then []
      else if \<not> pfx_valid p then ''invalid Prefix''
      else (case pfx_ip p of
              V4 w \<Rightarrow> show4 w | V6 w _ \<Rightarrow> show_v6 w | ZeroAddr \<Rightarrow> [])
           @ ''/'' @ itoa (pfx_bits p))"

section \<open>Parsing\<close>

text \<open>\<open>parseIPv4\<close>: one pass over the bytes with the finished fields, the current value and its
  digit count, and the byte before. The result is the four fields.\<close>

fun v4_loop :: "nat list \<Rightarrow> nat \<Rightarrow> nat \<Rightarrow> char option \<Rightarrow> string \<Rightarrow> nat list option" where
  "v4_loop done4 val digLen prev [] =
     (if length done4 < 3 then None else Some (done4 @ [val]))"
| "v4_loop done4 val digLen prev (c # cs) =
     (case base_digit 10 c of
        Some d \<Rightarrow>
          if digLen = 1 \<and> val = 0 then None
          else if val * 10 + d > 255 then None
          else v4_loop done4 (val * 10 + d) (digLen + 1) (Some c) cs
      | None \<Rightarrow>
          if c = CHR ''.'' then
            if prev = None \<or> cs = [] \<or> prev = Some (CHR ''.'') then None
            else if length done4 = 3 then None
            else v4_loop (done4 @ [val]) 0 0 (Some c) cs
          else None)"

definition parse_ipv4 :: "string \<Rightarrow> bytes option" where
  "parse_ipv4 s = map_option (map word_of_nat) (v4_loop [] 0 0 None s)"

text \<open>The digits of one hexadecimal group: how many, their value, what follows; no group has
  more than four.\<close>

fun hex_scan :: "nat \<Rightarrow> nat \<Rightarrow> string \<Rightarrow> (nat \<times> nat \<times> string) option" where
  "hex_scan off acc [] = Some (off, acc, [])"
| "hex_scan off acc (c # cs) =
     (case digit_val c of
        None \<Rightarrow> Some (off, acc, c # cs)
      | Some d \<Rightarrow>
          if off > 3 then None
          else if acc * 16 + d > 65535 then None
          else hex_scan (off + 1) (acc * 16 + d) cs)"

text \<open>The loop of \<open>parseIPv6\<close>: the bytes written so far (their number is \<open>i\<close>), the position of
  the ellipsis and the text left.\<close>

function v6_loop ::
  "bytes \<Rightarrow> nat option \<Rightarrow> string \<Rightarrow> (bytes \<times> nat option \<times> string) option" where
  "v6_loop ip ell s =
     (if 16 \<le> length ip then Some (ip, ell, s)
      else (case hex_scan 0 0 s of
        None \<Rightarrow> None
      | Some (off, acc, r) \<Rightarrow>
          if off = 0 then None
          else if r \<noteq> [] \<and> hd r = CHR ''.'' then
            (if ell = None \<and> length ip \<noteq> 12 then None
             else if length ip + 4 > 16 then None
             else (case parse_ipv4 s of None \<Rightarrow> None | Some q \<Rightarrow> Some (ip @ q, ell, [])))
          else
            (let ip' = ip @ [word_of_nat (acc div 256), word_of_nat acc]
             in if r = [] then Some (ip', ell, [])
                else if hd r \<noteq> CHR '':'' then None
                else if tl r = [] then None
                else if hd (tl r) = CHR '':'' then
                  (if ell \<noteq> None then None
                   else if tl (tl r) = [] then Some (ip', Some (length ip'), [])
                   else v6_loop ip' (Some (length ip')) (tl (tl r)))
                else v6_loop ip' ell (tl r))))"
  by pat_completeness auto
termination
  by (relation "measure (\<lambda>(ip, ell, s). 16 - length ip)") auto

declare v6_loop.simps [simp del]

definition v6_finish :: "bytes \<times> nat option \<times> string \<Rightarrow> bytes option" where
  "v6_finish st =
     (case st of (ip, ell, s) \<Rightarrow>
        if s \<noteq> [] then None
        else if length ip < 16 then
          (case ell of None \<Rightarrow> None
           | Some e \<Rightarrow> Some (take e ip @ replicate (16 - length ip) 0 @ drop e ip))
        else if ell \<noteq> None then None
        else Some ip)"

definition parse_ipv6 :: "string \<Rightarrow> netip_addr option" where
  "parse_ipv6 text =
     (let (s, zone, bad) =
        (case index_byte text (CHR ''%'') of
           None \<Rightarrow> (text, [], False)
         | Some i \<Rightarrow> (take i text, drop (i + 1) text, drop (i + 1) text = []))
      in if bad then None
         else if take 2 s = ''::'' then
           (if drop 2 s = [] then Some (V6 0 zone)
            else (case v6_loop [] (Some 0) (drop 2 s) of None \<Rightarrow> None
                  | Some st \<Rightarrow> map_option (\<lambda>bs. V6 (join_words bs) zone) (v6_finish st)))
         else (case v6_loop [] None s of None \<Rightarrow> None
               | Some st \<Rightarrow> map_option (\<lambda>bs. V6 (join_words bs) zone) (v6_finish st)))"

definition parse_addr :: "string \<Rightarrow> netip_addr option" where
  "parse_addr s =
     (case find (\<lambda>c. c \<in> set ''.:%'') s of
        None \<Rightarrow> None
      | Some c \<Rightarrow>
          if c = CHR ''.'' then map_option (\<lambda>bs. V4 (join_words bs)) (parse_ipv4 s)
          else if c = CHR '':'' then parse_ipv6 s
          else None)"

text \<open>\<open>strconv.Atoi\<close> on the text after the slash, where signs and leading zeros have been
  refused; a value above \<open>maxBits\<close> is out of range whatever its size.\<close>

definition parse_bits :: "string \<Rightarrow> nat option" where
  "parse_bits s =
     (if s = [] then None
      else if 1 < length s \<and> hd s = CHR ''0'' then None
      else read_digits 10 0 s)"

definition parse_prefix :: "string \<Rightarrow> netip_prefix option" where
  "parse_prefix s =
     (case last_index_byte s (CHR ''/'') of
        None \<Rightarrow> None
      | Some i \<Rightarrow>
          (case parse_addr (take i s) of
             None \<Rightarrow> None
           | Some ip \<Rightarrow>
               if has_zone ip then None
               else (case parse_bits (drop (i + 1) s) of
                       None \<Rightarrow> None
                     | Some b \<Rightarrow>
                         if b > bit_len ip then None
                         else Some (prefix_from ip (int b)))))"

end
