(* ===== verification/Netip_Text.thy ===== *)
theory Netip_Text
  imports Go_Netip
begin

text \<open>
  The text forms of addresses and prefixes are read back by the parsers: lemmas for IPv4, for
  IPv6 with and without a compressed run of zero groups, for IPv4-mapped IPv6 and for zones, and
  their summary \<open>parse_addr_string\<close>.
\<close>

section \<open>IPv4\<close>

lemma itoa_1: "n < 10 \<Longrightarrow> itoa n = [digit_char n]"
  by (subst show_base.simps) simp

lemma itoa_2: "10 \<le> n \<Longrightarrow> n < 100 \<Longrightarrow> itoa n = [digit_char (n div 10), digit_char (n mod 10)]"
  by (subst show_base.simps) (simp add: itoa_1)

lemma itoa_3: "100 \<le> n \<Longrightarrow> n < 1000 \<Longrightarrow>
    itoa n = [digit_char (n div 100), digit_char (n div 10 mod 10), digit_char (n mod 10)]"
  by (subst show_base.simps) (simp add: itoa_2 div_mult2_eq [symmetric])

lemma v4_octet:
  assumes "n < 256"
  obtains k c where "c \<noteq> CHR ''.''"
    and "v4_loop fs 0 0 prev (itoa n @ rest) = v4_loop fs n k (Some c) rest"
proof -
  have dot: "digit_char d \<noteq> CHR ''.''" if "d < 10" for d
    using that digit_val_char [of d] by (auto simp: digit_val_def)
  consider "n < 10" | "10 \<le> n" "n < 100" | "100 \<le> n" by linarith
  then show thesis
  proof cases
    case 1
    show thesis
      by (rule that [of "digit_char n" 1]) (use 1 dot in \<open>simp_all add: itoa_1\<close>)
  next
    case 2
    have "n div 10 \<noteq> 0" "n div 10 < 10" using 2 by auto
    then show thesis
      by (intro that [of "digit_char (n mod 10)" "Suc (Suc 0)"]) (use 2 assms dot in \<open>simp_all add: itoa_2\<close>)
  next
    case 3
    have "n div 100 \<noteq> 0" "n div 100 < 10" using 3 assms by auto
    moreover have "n div 100 = n div 10 div 10" by (simp add: div_mult2_eq [symmetric])
    then have "n div 100 * 10 + n div 10 mod 10 = n div 10" by (simp only: div_mult_mod_eq)
    moreover have "n div 10 * 10 + n mod 10 = n" by (rule div_mult_mod_eq)
    moreover have "n div 10 \<le> 255" using assms by simp
    ultimately show thesis
      using 3 assms dot
      by (intro that [of "digit_char (n mod 10)" "Suc (Suc (Suc 0))"]) (simp_all add: itoa_3)
  qed
qed

lemma v4_field:
  assumes "n < 256" and "length fs < 3" and "rest \<noteq> []"
  shows "v4_loop fs 0 0 prev (itoa n @ CHR ''.'' # rest) =
         v4_loop (fs @ [n]) 0 0 (Some (CHR ''.'')) rest"
proof -
  obtain k c where "c \<noteq> CHR ''.''"
    and "v4_loop fs 0 0 prev (itoa n @ CHR ''.'' # rest) = v4_loop fs n k (Some c) (CHR ''.'' # rest)"
    using v4_octet [OF assms(1)] by metis
  moreover have "base_digit 10 (CHR ''.'') = None" by (simp add: base_digit_def digit_val_def)
  ultimately show ?thesis using assms by simp
qed

lemma v4_last:
  assumes "n < 256" and "length fs = 3"
  shows "v4_loop fs 0 0 prev (itoa n) = Some (fs @ [n])"
proof -
  obtain k c where "v4_loop fs 0 0 prev (itoa n @ []) = v4_loop fs n k (Some c) []"
    using v4_octet [OF assms(1)] by metis
  then show ?thesis using assms by simp
qed

lemma split_word_4: "split_word 4 (w :: 'a::len word) =
    [ucast (drop_bit (3 * LENGTH('b)) w), ucast (drop_bit (2 * LENGTH('b)) w),
     ucast (drop_bit LENGTH('b) w), ucast w :: 'b::len word]"
  by (simp add: eval_nat_numeral drop_bit_drop_bit algebra_simps)

lemma show4_eq:
  obtains a b c d where "split_word 4 w = [a, b, c, d :: byte]"
    and "show4 w = itoa (unat a) @ CHR ''.'' # itoa (unat b) @ CHR ''.'' # itoa (unat c) @
           CHR ''.'' # itoa (unat d)"
  by (rule that [OF split_word_4]) (simp add: show4_def split_word_4)

lemma parse_ipv4_show4: "parse_ipv4 (show4 w) = Some (split_word 4 w)"
proof -
  obtain a b c d where w: "split_word 4 w = [a, b, c, d :: byte]"
    and s: "show4 w = itoa (unat a) @ CHR ''.'' # itoa (unat b) @ CHR ''.'' # itoa (unat c) @
           CHR ''.'' # itoa (unat d)"
    by (rule show4_eq)
  show ?thesis by (simp add: parse_ipv4_def s w v4_field v4_last)
qed

lemma find_skip: "(\<And>c. c \<in> set xs \<Longrightarrow> \<not> P c) \<Longrightarrow> find P (xs @ s) = find P s"
  by (induction xs) auto

lemma find_itoa: "find (\<lambda>c. c \<in> set ''.:%'') (itoa n @ s) = find (\<lambda>c. c \<in> set ''.:%'') s"
proof -
  have "c \<notin> set ''.:%''" if "c \<in> set (itoa n)" for c
    using that digit_char_notin [of c 10 n] by (auto simp: digit_val_def)
  then show ?thesis by (rule find_skip)
qed

lemma parse_addr_show4: "parse_addr (show4 w) = Some (V4 w)"
proof -
  obtain a b c d where "split_word 4 w = [a, b, c, d :: byte]"
    and s: "show4 w = itoa (unat a) @ CHR ''.'' # itoa (unat b) @ CHR ''.'' # itoa (unat c) @
           CHR ''.'' # itoa (unat d)"
    by (rule show4_eq)
  have "find (\<lambda>c. c \<in> set ''.:%'') (show4 w) = find (\<lambda>c. c \<in> set ''.:%'')
      (CHR ''.'' # itoa (unat b) @ CHR ''.'' # itoa (unat c) @ CHR ''.'' # itoa (unat d))"
    unfolding s by (rule find_itoa)
  then have "find (\<lambda>c. c \<in> set ''.:%'') (show4 w) = Some (CHR ''.'')" by simp
  moreover have "(join_words (split_word 4 w :: bytes) :: 32 word) = w"
  proof (rule join_split_word)
    show "drop_bit (4 * LENGTH(8)) w = 0"
      by (rule bit_word_eqI) (auto simp: bit_simps dest: bit_imp_le_length)
  qed
  ultimately show ?thesis by (simp add: parse_addr_def parse_ipv4_show4)
qed

section \<open>One hexadecimal group\<close>

lemma hex_scan_show:
  assumes "off + length (show_base 16 n) \<le> 4"
    and "acc * 16 ^ length (show_base 16 n) + n \<le> 65535"
  shows "hex_scan off acc (show_base 16 n @ r) =
         hex_scan (off + length (show_base 16 n)) (acc * 16 ^ length (show_base 16 n) + n) r"
  using assms
proof (induction "16 :: nat" n arbitrary: r rule: show_base.induct)
  case (1 n)
  show ?case
  proof (cases "n < 16")
    case True
    with "1.prems" show ?thesis by (simp add: show_base.simps [of 16 n])
  next
    case False
    let ?m = "n div 16" and ?k = "length (show_base 16 (n div 16))"
    have eq: "show_base 16 n = show_base 16 ?m @ [digit_char (n mod 16)]"
      using False by (subst show_base.simps) simp
    have split: "(acc * 16 ^ ?k + ?m) * 16 + n mod 16 = acc * 16 ^ Suc ?k + n"
      using div_mult_mod_eq [of n 16] by (simp add: algebra_simps)
    have le: "acc * 16 ^ ?k + ?m \<le> 65535" "acc * 16 ^ Suc ?k + n \<le> 65535" "off + ?k \<le> 3"
      using "1.prems" split by (simp_all add: eq)
    have "hex_scan off acc (show_base 16 ?m @ digit_char (n mod 16) # r) =
        hex_scan (off + ?k) (acc * 16 ^ ?k + ?m) (digit_char (n mod 16) # r)"
      using False le by (intro "1.hyps") simp_all
    also have "\<dots> = hex_scan (off + ?k + 1) (acc * 16 ^ Suc ?k + n) r"
      using le split by (simp add: ac_simps)
    finally show ?thesis by (simp add: eq)
  qed
qed

lemma length_show_base_16: "n < 16 ^ Suc k \<Longrightarrow> length (show_base 16 n) \<le> Suc k"
proof (induction k arbitrary: n)
  case 0
  then show ?case by (subst show_base.simps) simp
next
  case (Suc k)
  then have "n div 16 < 16 ^ Suc k" by (simp add: less_mult_imp_div_less)
  with Suc.IH have "length (show_base 16 (n div 16)) \<le> Suc k" by blast
  then show ?case by (subst show_base.simps) simp
qed

lemma unat_group_less: "unat (g :: 16 word) < 65536"
  using unsigned_less [of g] by simp

lemma hex_scan_hex:
  assumes "r = [] \<or> digit_val (hd r) = None"
  obtains off where "off \<noteq> 0" and "hex_scan 0 0 (hex g @ r) = Some (off, unat g, r)"
proof -
  let ?n = "unat g"
  have "?n < 16 ^ Suc 3" using unat_group_less [of g] by simp
  then have "length (hex g) \<le> Suc 3" by (rule length_show_base_16)
  then have "hex_scan 0 0 (hex g @ r) = hex_scan (length (hex g)) ?n r"
    using hex_scan_show [of 0 ?n 0 r] unat_group_less [of g] by simp
  also have "\<dots> = Some (length (hex g), ?n, r)"
    using assms by (cases r) auto
  finally show thesis using that [of "length (hex g)"] by simp
qed

lemma hd_hex: "digit_val (hd (hex g @ r)) \<noteq> None"
proof -
  have "hd (hex g) \<in> set (hex g)" by simp
  then have "hd (hex g) \<in> digit_char ` {..<16}" using set_show_base [of 16 "unat g"] by auto
  then show ?thesis by auto
qed

section \<open>Sequences of groups\<close>

definition group_bytes :: "16 word list \<Rightarrow> bytes" where
  "group_bytes gs = concat (map (\<lambda>g. [word_of_nat (unat g div 256), word_of_nat (unat g)]) gs)"

fun ser :: "16 word list \<Rightarrow> string" where
  "ser [] = []"
| "ser [g] = hex g"
| "ser (g # h # gs) = hex g @ CHR '':'' # ser (h # gs)"

lemma length_group_bytes [simp]: "length (group_bytes gs) = 2 * length gs"
  by (induction gs) (auto simp: group_bytes_def)

lemma group_bytes_simps [simp]:
  "group_bytes [] = []"
  "group_bytes (g # gs) = word_of_nat (unat g div 256) # word_of_nat (unat g) # group_bytes gs"
  "group_bytes (gs @ hs) = group_bytes gs @ group_bytes hs"
  by (auto simp: group_bytes_def)

lemma colon_dot_no_digit [simp]:
  "digit_val (CHR '':'') = None" "digit_val (CHR ''.'') = None" "digit_val (CHR ''%'') = None"
  by (simp_all add: digit_val_def)

lemma hd_ser: "gs \<noteq> [] \<Longrightarrow> ser gs \<noteq> [] \<and> hd (ser gs @ r) \<noteq> CHR '':''"
proof -
  assume "gs \<noteq> []"
  then obtain g t where s: "ser gs = hex g @ t" by (cases gs rule: ser.cases) auto
  have "digit_val (hd (hex g @ t @ r)) \<noteq> None" by (rule hd_hex)
  then have "hd (hex g @ t @ r) \<noteq> CHR '':''" by (metis colon_dot_no_digit(1))
  then show ?thesis by (simp add: s)
qed

lemma v6_loop_group:
  assumes "length ip < 16" and "r = [] \<or> hd r = CHR '':''"
  shows "v6_loop ip ell (hex g @ r) =
    (let ip' = ip @ group_bytes [g]
     in if r = [] then Some (ip', ell, [])
        else if tl r = [] then None
        else if hd (tl r) = CHR '':'' then
          (if ell \<noteq> None then None
           else if tl (tl r) = [] then Some (ip', Some (length ip'), [])
           else v6_loop ip' (Some (length ip')) (tl (tl r)))
        else v6_loop ip' ell (tl r))"
proof -
  have "r = [] \<or> digit_val (hd r) = None" using assms(2) by auto
  then obtain off where "off \<noteq> 0" and "hex_scan 0 0 (hex g @ r) = Some (off, unat g, r)"
    by (rule hex_scan_hex)
  with assms show ?thesis
    by (subst v6_loop.simps) (auto simp: Let_def)
qed

text \<open>Groups up to the end of the text.\<close>

lemma v6_loop_ser:
  "gs \<noteq> [] \<Longrightarrow> length ip + 2 * length gs \<le> 16 \<Longrightarrow>
   v6_loop ip ell (ser gs) = Some (ip @ group_bytes gs, ell, [])"
proof (induction gs arbitrary: ip rule: ser.induct)
  case 1
  then show ?case by simp
next
  case (2 g)
  then show ?case using v6_loop_group [of ip "[]" ell g] by simp
next
  case (3 g h gs)
  have "hd (ser (h # gs)) \<noteq> CHR '':''" "ser (h # gs) \<noteq> []"
    using hd_ser [of "h # gs" "[]"] by auto
  then have "v6_loop ip ell (ser (g # h # gs)) =
      v6_loop (ip @ group_bytes [g]) ell (ser (h # gs))"
    using "3.prems" v6_loop_group [of ip "CHR '':'' # ser (h # gs)" ell g] by (simp add: Let_def)
  then show ?case using 3 by simp
qed

text \<open>Groups up to an ellipsis.\<close>

lemma v6_loop_ser_ellipsis:
  "gs \<noteq> [] \<Longrightarrow> length ip + 2 * length gs \<le> 16 \<Longrightarrow>
   v6_loop ip None (ser gs @ ''::'' @ t) =
     (let ip' = ip @ group_bytes gs
      in if t = [] then Some (ip', Some (length ip'), [])
         else v6_loop ip' (Some (length ip')) t)"
proof (induction gs arbitrary: ip rule: ser.induct)
  case 1
  then show ?case by simp
next
  case (2 g)
  then show ?case using v6_loop_group [of ip "''::'' @ t" None g] by (simp add: Let_def)
next
  case (3 g h gs)
  have "hd (ser (h # gs) @ ''::'' @ t) \<noteq> CHR '':''" "ser (h # gs) \<noteq> []"
    using hd_ser [of "h # gs" "''::'' @ t"] by auto
  then have "v6_loop ip None (ser (g # h # gs) @ ''::'' @ t) =
      v6_loop (ip @ group_bytes [g]) None (ser (h # gs) @ ''::'' @ t)"
    using "3.prems" v6_loop_group [of ip "CHR '':'' # ser (h # gs) @ ''::'' @ t" None g]
    by (simp add: Let_def)
  then show ?case using 3 by (simp add: Let_def)
qed

section \<open>The compressed form\<close>

lemma foldl_invariant:
  "P s \<Longrightarrow> (\<And>s x. x \<in> set xs \<Longrightarrow> P s \<Longrightarrow> P (f s x)) \<Longrightarrow> P (foldl f s xs)"
  by (induction xs arbitrary: s) auto

definition run_ok :: "16 word list \<Rightarrow> nat \<times> nat \<Rightarrow> bool" where
  "run_ok gs r \<longleftrightarrow> r = (255, 255) \<or>
     (fst r + 2 \<le> snd r \<and> snd r \<le> 8 \<and>
      take (snd r - fst r) (drop (fst r) gs) = replicate (snd r - fst r) 0)"

lemma takeWhile_zero_replicate:
  "takeWhile (\<lambda>g. g = 0) xs = replicate (length (takeWhile (\<lambda>g. g = 0) xs)) 0"
  by (induction xs) auto

lemma take_takeWhile: "take (length (takeWhile P xs)) xs = takeWhile P xs"
  by (induction xs) auto

lemma run_ok_zero_run:
  assumes "length gs = 8"
  shows "run_ok gs (zero_run gs)"
  unfolding zero_run_def
proof (rule foldl_invariant)
  show "run_ok gs (255, 255)" by (simp add: run_ok_def)
next
  fix r i
  assume "i \<in> set [0..<8]" and r: "run_ok gs r"
  let ?l = "length (takeWhile (\<lambda>g. g = 0) (drop i gs))"
  have "?l \<le> length (drop i gs)" by (rule length_takeWhile_le)
  then have "i + ?l \<le> 8" using assms \<open>i \<in> set [0..<8]\<close> by simp
  moreover have "take ?l (drop i gs) = replicate ?l 0"
    by (simp only: take_takeWhile flip: takeWhile_zero_replicate)
  ultimately have "2 \<le> ?l \<Longrightarrow> run_ok gs (i, i + ?l)" by (simp add: run_ok_def)
  then show "run_ok gs ((\<lambda>(zs, ze) i. let l = length (takeWhile (\<lambda>g. g = 0) (drop i gs))
      in if 2 \<le> l \<and> l > ze - zs then (i, i + l) else (zs, ze)) r i)"
    using r by (auto simp: Let_def split: prod.splits)
qed

lemma ser_Cons: "ser (g # gs) = hex g @ (if gs = [] then [] else CHR '':'' # ser gs)"
  by (cases gs) auto

lemma drop_nth_Cons: "i < length gs \<Longrightarrow> drop i gs = gs ! i # drop (Suc i) gs"
  by (rule Cons_nth_drop_Suc [symmetric])

lemma show6_from_rest:
  assumes "length gs = 8" and "\<And>j. i \<le> j \<Longrightarrow> j < 8 \<Longrightarrow> j \<noteq> zs"
  shows "show6_from gs zs ze i =
    (if 8 \<le> i then [] else (if 0 < i then '':'' else []) @ ser (drop i gs))"
  using assms(2)
proof (induction "8 - i" arbitrary: i)
  case 0
  then show ?case by (subst show6_from.simps) simp
next
  case (Suc n)
  then have "i < 8" "i \<noteq> zs" by auto
  moreover have "show6_from gs zs ze (i + 1) =
      (if 8 \<le> i + 1 then [] else '':'' @ ser (drop (i + 1) gs))"
    using Suc by (subst Suc.hyps(1)) auto
  ultimately show ?case
    using assms(1) by (subst show6_from.simps) (auto simp: drop_nth_Cons ser_Cons)
qed

lemma show6_from_before:
  assumes "length gs = 8" and "i < zs" and "zs \<le> 8"
  shows "show6_from gs zs ze i = (if 0 < i then '':'' else []) @
    ser (take (zs - i) (drop i gs)) @ show6_from gs zs ze zs"
  using assms(2)
proof (induction "zs - i" arbitrary: i)
  case 0
  then show ?case by simp
next
  case (Suc n)
  have i: "i < 8" "i < length gs" using Suc.prems assms by auto
  have t: "take (zs - i) (drop i gs) = gs ! i # take (zs - Suc i) (drop (Suc i) gs)"
    using i Suc.prems by (simp add: drop_nth_Cons take_Cons')
  show ?case
  proof (cases "Suc i = zs")
    case True
    with i t show ?thesis by (subst show6_from.simps) auto
  next
    case False
    then have "Suc i < zs" using Suc.prems by simp
    moreover have "n = zs - Suc i" using Suc.hyps(2) by simp
    ultimately have "show6_from gs zs ze (Suc i) =
        '':'' @ ser (take (zs - Suc i) (drop (Suc i) gs)) @ show6_from gs zs ze zs"
      using Suc.hyps(1) [of "Suc i"] by simp
    moreover have "take (zs - Suc i) (drop (Suc i) gs) \<noteq> []"
      using \<open>Suc i < zs\<close> assms by simp
    ultimately show ?thesis
      using i t Suc.prems by (subst show6_from.simps) (auto simp: ser_Cons)
  qed
qed

lemma show6_from_run:
  assumes "length gs = 8" and "zs < ze" and "ze \<le> 8"
  shows "show6_from gs zs ze 0 = ser (take zs gs) @ ''::'' @ ser (drop ze gs)"
proof -
  have rest: "show6_from gs zs ze (Suc ze) =
      (if 8 \<le> Suc ze then [] else CHR '':'' # ser (drop (Suc ze) gs))"
    using assms by (subst show6_from_rest) auto
  have at: "show6_from gs zs ze zs = ''::'' @ ser (drop ze gs)"
  proof (cases "ze = 8")
    case True
    then show ?thesis using assms by (subst show6_from.simps) simp
  next
    case False
    then have "drop ze gs = gs ! ze # drop (Suc ze) gs" using assms by (simp add: drop_nth_Cons)
    then show ?thesis
      using assms False rest by (subst show6_from.simps) (auto simp: ser_Cons)
  qed
  show ?thesis
  proof (cases "zs = 0")
    case True
    with at show ?thesis by simp
  next
    case False
    then show ?thesis using assms at show6_from_before [of gs 0 zs ze] by simp
  qed
qed

text \<open>What \<open>show6\<close> writes: all eight groups, or those before and after a run of zeros.\<close>

lemma show6_cases:
  fixes w :: "128 word"
  obtains (full) "show6 w = ser (split_word 8 w)"
  | (run) pre k post where "split_word 8 w = pre @ replicate k 0 @ post" and "2 \<le> k"
      and "show6 w = ser pre @ ''::'' @ ser post"
proof -
  let ?gs = "split_word 8 w :: 16 word list"
  obtain zs ze where z: "zero_run ?gs = (zs, ze)" by (cases "zero_run ?gs")
  then have ok: "run_ok ?gs (zs, ze)" using run_ok_zero_run [of ?gs] by simp
  have s: "show6 w = show6_from ?gs zs ze 0" by (simp add: show6_def z)
  show thesis
  proof (cases "(zs, ze) = (255, 255)")
    case True
    then have "show6 w = ser ?gs" unfolding s by (subst show6_from_rest) auto
    then show thesis by (rule full)
  next
    case False
    then have r: "zs + 2 \<le> ze" "ze \<le> 8" "take (ze - zs) (drop zs ?gs) = replicate (ze - zs) 0"
      using ok by (auto simp: run_ok_def)
    have "?gs = take zs ?gs @ take (ze - zs) (drop zs ?gs) @ drop (ze - zs) (drop zs ?gs)"
      by (metis append_take_drop_id)
    also have "drop (ze - zs) (drop zs ?gs) = drop ze ?gs" using r(1) by (simp add: drop_drop)
    finally have "?gs = take zs ?gs @ replicate (ze - zs) 0 @ drop ze ?gs" by (simp only: r(3))
    moreover have "show6 w = ser (take zs ?gs) @ ''::'' @ ser (drop ze ?gs)"
      unfolding s using r by (intro show6_from_run) auto
    ultimately show thesis using r(1) by (intro run [of "take zs ?gs" "ze - zs" "drop ze ?gs"]) auto
  qed
qed

section \<open>IPv6\<close>

lemma push_or_group:
  "push_bit 8 (push_bit 8 x OR ucast (word_of_nat (unat g div 256) :: byte))
     OR ucast (word_of_nat (unat g) :: byte) = (push_bit 16 x OR ucast g :: 128 word)"
  for g :: "16 word"
proof -
  have "unat g div 256 = unat (drop_bit 8 g)"
    unfolding unat_drop_bit_eq by (simp add: drop_bit_eq_div)
  then have "(word_of_nat (unat g div 256) :: byte) = ucast (drop_bit 8 g)"
    by (simp only: of_nat_unat)
  moreover have "(word_of_nat (unat g) :: byte) = ucast g" by (rule of_nat_unat)
  ultimately show ?thesis
    by (intro bit_word_eqI) (auto simp: bit_simps dest: bit_imp_le_length)
qed

lemma join_group_bytes: "(join_words (group_bytes gs) :: 128 word) = join_words gs"
proof (induction gs rule: rev_induct)
  case Nil
  then show ?case by (simp add: join_words_def)
next
  case (snoc g gs)
  have "(join_words (group_bytes (gs @ [g])) :: 128 word) =
      push_bit 8 (push_bit 8 (join_words (group_bytes gs)) OR
        ucast (word_of_nat (unat g div 256) :: byte)) OR ucast (word_of_nat (unat g) :: byte)"
    using join_words_snoc [of "group_bytes gs @ [word_of_nat (unat g div 256)]" "word_of_nat (unat g)"]
    by (simp add: join_words_snoc)
  then show ?case using snoc by (simp only: push_or_group join_words_snoc) simp
qed

lemma join_split_128: "(join_words (split_word 8 w :: 16 word list) :: 128 word) = w"
proof (rule join_split_word)
  show "drop_bit (8 * LENGTH(16)) w = 0"
    by (rule bit_word_eqI) (auto simp: bit_simps dest: bit_imp_le_length)
qed

lemma join_group_bytes_split: "(join_words (group_bytes (split_word 8 w)) :: 128 word) = w"
  by (simp add: join_group_bytes join_split_128)

lemma group_bytes_zeros: "group_bytes (replicate k 0) = replicate (2 * k) 0"
  by (induction k) auto

definition v6_text :: "string \<Rightarrow> 128 word option" where
  "v6_text s =
     (if take 2 s = ''::'' then
        (if drop 2 s = [] then Some 0
         else (case v6_loop [] (Some 0) (drop 2 s) of None \<Rightarrow> None
               | Some st \<Rightarrow> map_option join_words (v6_finish st)))
      else (case v6_loop [] None s of None \<Rightarrow> None
            | Some st \<Rightarrow> map_option join_words (v6_finish st)))"

lemma take_2_hd: "hd s \<noteq> CHR '':'' \<Longrightarrow> take 2 s \<noteq> ''::''"
  by (cases s) auto

lemma v6_text_show6: "v6_text (show6 w) = Some w"
proof (cases w rule: show6_cases)
  case full
  let ?gs = "split_word 8 w :: 16 word list"
  have ne: "?gs \<noteq> []" by (metis length_split_word list.size(3) zero_neq_numeral)
  then have "take 2 (ser ?gs) \<noteq> ''::''" using hd_ser [of ?gs "[]"] by (auto intro!: take_2_hd)
  moreover have "v6_loop [] None (ser ?gs) = Some (group_bytes ?gs, None, [])"
    using v6_loop_ser [OF ne, of "[]" None] by simp
  ultimately show ?thesis
    by (simp add: v6_text_def full v6_finish_def join_group_bytes_split)
next
  case (run pre k post)
  have len: "length pre + k + length post = 8"
    using arg_cong [OF run(1), of length] by simp
  have bytes: "group_bytes (split_word 8 w) =
      group_bytes pre @ replicate (2 * k) 0 @ group_bytes post"
    unfolding run(1) by (simp add: group_bytes_zeros)
  have fin: "v6_finish (group_bytes pre @ group_bytes post, Some (2 * length pre), []) =
      Some (group_bytes (split_word 8 w))"
  proof -
    have "16 - length (group_bytes pre @ group_bytes post) = 2 * k" using len by simp
    then show ?thesis using len run(2) by (simp add: v6_finish_def bytes)
  qed
  have w0: "group_bytes (split_word 8 w) = replicate 16 0 \<Longrightarrow> w = 0"
  proof -
    assume "group_bytes (split_word 8 w) = replicate 16 0"
    then have "join_words (replicate 16 (0 :: byte)) = w" using join_group_bytes_split [of w] by simp
    moreover have "join_words (replicate n (0 :: byte)) = (0 :: 128 word)" for n
      by (induction n) (auto simp: join_words_def)
    ultimately show "w = 0" by simp
  qed
  show ?thesis
  proof (cases "pre = []")
    case True
    show ?thesis
    proof (cases "post = []")
      case True
      with \<open>pre = []\<close> len have "w = 0" by (intro w0) (simp add: bytes)
      moreover have "v6_text (show6 w) = Some 0"
        using True \<open>pre = []\<close> by (simp add: v6_text_def run(3))
      ultimately show ?thesis by simp
    next
      case False
      then have "v6_loop [] (Some 0) (ser post) = Some (group_bytes post, Some 0, [])"
        using v6_loop_ser [OF False, of "[]" "Some 0"] len by simp
      with \<open>pre = []\<close> False fin hd_ser [of post "[]"] show ?thesis
        by (simp add: v6_text_def run(3) join_group_bytes_split)
    qed
  next
    case False
    have "v6_loop [] None (ser pre @ ''::'' @ ser post) =
        Some (group_bytes pre @ group_bytes post, Some (2 * length pre), [])"
    proof (cases "post = []")
      case True
      then show ?thesis
        using v6_loop_ser_ellipsis [OF False, of "[]" "[]"] len by simp
    next
      case post: False
      then have "v6_loop (group_bytes pre) (Some (2 * length pre)) (ser post) =
          Some (group_bytes pre @ group_bytes post, Some (2 * length pre), [])"
        using len by (intro v6_loop_ser) auto
      then show ?thesis
        using v6_loop_ser_ellipsis [OF False, of "[]" "ser post"] hd_ser [OF post, of "[]"] len
        by simp
    qed
    moreover have "take 2 (ser pre @ ''::'' @ ser post) \<noteq> ''::''"
      using hd_ser [OF False, of "''::'' @ ser post"] by (intro take_2_hd) blast
    ultimately show ?thesis
      using fin by (simp add: v6_text_def run(3) join_group_bytes_split)
  qed
qed

section \<open>IPv4-mapped addresses and zones\<close>

lemma split_word_16_group: "(split_word 16 w :: bytes) = group_bytes (split_word 8 w)"
  for w :: "128 word"
proof -
  have "length (group_bytes (split_word 8 w)) * LENGTH(8) \<le> LENGTH(128)" by simp
  then have "split_word 16 (join_words (group_bytes (split_word 8 w)) :: 128 word) =
      group_bytes (split_word 8 w)"
    using split_join_words [of "group_bytes (split_word 8 w)", where 'a = 128] by simp
  then show ?thesis by (simp only: join_group_bytes_split)
qed

lemma show4_hd_hex:
  obtains off acc r where "off \<noteq> 0" and "hex_scan 0 0 (show4 w) = Some (off, acc, CHR ''.'' # r)"
proof -
  obtain a b c d where s: "show4 w = itoa (unat (a :: byte)) @ CHR ''.'' # itoa (unat (b :: byte)) @
      CHR ''.'' # itoa (unat (c :: byte)) @ CHR ''.'' # itoa (unat (d :: byte))"
    by (rule show4_eq)
  have a: "unat a < 256" by simp
  have "\<exists>off acc. off \<noteq> 0 \<and> hex_scan 0 0 (itoa (unat a) @ CHR ''.'' # t) =
      Some (off, acc, CHR ''.'' # t)" for t
  proof -
    consider "unat a < 10" | "10 \<le> unat a" "unat a < 100" | "100 \<le> unat a" by linarith
    then show ?thesis
    proof cases
      case 1
      then show ?thesis by (simp add: itoa_1)
    next
      case 2
      then have "unat a div 10 < 10" by simp
      with 2 show ?thesis by (simp add: itoa_2)
    next
      case 3
      have "unat a div 100 < 10" by (rule less_mult_imp_div_less) (use a in linarith)
      with 3 a show ?thesis by (simp add: itoa_3)
    qed
  qed
  then show thesis unfolding s using that by (metis s)
qed

lemma show4_not_Nil: "show4 w \<noteq> [] \<and> hd (show4 w) \<noteq> CHR '':''"
proof -
  obtain off acc r where "off \<noteq> 0" and "hex_scan 0 0 (show4 w) = Some (off, acc, CHR ''.'' # r)"
    by (rule show4_hd_hex)
  then show ?thesis by (cases "show4 w") auto
qed

lemma v6_loop_show4:
  assumes "length ip + 4 \<le> 16" and "ell \<noteq> None"
  shows "v6_loop ip ell (show4 w) = Some (ip @ split_word 4 w, ell, [])"
proof -
  obtain off acc r where "off \<noteq> 0" and "hex_scan 0 0 (show4 w) = Some (off, acc, CHR ''.'' # r)"
    by (rule show4_hd_hex)
  with assms show ?thesis by (subst v6_loop.simps) (auto simp: parse_ipv4_show4)
qed

lemma digit_char_15: "digit_char 15 = CHR ''f''"
  by code_simp

lemma hex_ffff: "show_base 16 65535 = ''ffff''"
  by (simp add: show_base.simps digit_char_15)

lemma join_words_zeros: "join_words (replicate n 0 @ gs) = join_words gs"
proof -
  have "foldl (\<lambda>acc g. push_bit LENGTH('b) acc OR ucast g) (0 :: 'a word)
      (replicate n (0 :: 'b word)) = 0" for n
    by (induction n) auto
  then show ?thesis by (simp add: join_words_def)
qed

lemma join_mapped:
  assumes "is4in6 w"
  shows "join_words (replicate n 0 @ [255, 255] @ (split_word 4 (ucast w :: 32 word) :: bytes)) = w"
proof -
  let ?q = "split_word 4 (ucast w :: 32 word) :: bytes"
  have j: "join_words (xs @ [a, b, c, d]) = push_bit 32 (join_words xs) OR
      (join_words [a, b, c, d] :: 128 word)" for xs :: bytes and a b c d
    by (simp add: join_words_def push_bit_or or.assoc push_bit_push_bit)
  obtain a b c d where q: "?q = [a, b, c, d]"
    by (rule that [OF split_word_4])
  have "join_words ?q = (ucast (ucast w :: 32 word) :: 128 word)"
    unfolding split_word_4 join_words_def
    by (rule bit_word_eqI) (auto simp: bit_simps)
  moreover have "join_words (replicate n 0 @ [255, 255 :: byte]) = (0xffff :: 128 word)"
    by (simp add: join_words_zeros) (simp add: join_words_def)
  ultimately have "join_words (replicate n 0 @ [255, 255] @ ?q) =
      push_bit 32 (0xffff :: 128 word) OR ucast (ucast w :: 32 word)"
    unfolding q by (simp only: j append_assoc [symmetric])
  also have "\<dots> = push_bit 32 (drop_bit 32 w) OR ucast (ucast w :: 32 word)"
    using assms by (simp add: is4in6_def)
  also have "\<dots> = w"
    by (rule bit_word_eqI) (auto simp: bit_simps)
  finally show ?thesis .
qed

lemma v6_text_mapped:
  assumes "is4in6 w"
  shows "v6_text (''::ffff:'' @ show4 (ucast w)) = Some w"
proof -
  let ?q = "split_word 4 (ucast w :: 32 word) :: bytes" and ?s = "show4 (ucast w)"
  have "group_bytes [0xffff] = [255, 255]" by (simp add: word_eq_iff_unsigned)
  then have "v6_loop [] (Some 0) (hex 0xffff @ CHR '':'' # ?s) = v6_loop [255, 255] (Some 0) ?s"
    using v6_loop_group [of "[]" "CHR '':'' # ?s" "Some 0" "0xffff"] show4_not_Nil [of "ucast w"]
    by (simp add: Let_def del: group_bytes_simps)
  also have "\<dots> = Some ([255, 255] @ ?q, Some 0, [])"
    using v6_loop_show4 [of "[255, 255]" "Some 0"] by simp
  finally have loop: "v6_loop [] (Some 0) (''ffff:'' @ ?s) = Some ([255, 255] @ ?q, Some 0, [])"
    by (simp add: hex_ffff)
  have "v6_finish ([255, 255] @ ?q, Some 0, []) = Some (replicate 10 0 @ [255, 255] @ ?q)"
    by (simp add: v6_finish_def del: replicate.simps)
  with loop show ?thesis
    using join_mapped [OF assms, of 10] by (simp add: v6_text_def)
qed

lemma v6_text_show: "v6_text (show_v6 w) = Some w"
  using v6_text_show6 v6_text_mapped by (simp add: show_v6_def)

lemma set_ser: "set (ser gs) \<subseteq> digit_char ` {..<16} \<union> {CHR '':''}"
proof (induction gs rule: ser.induct)
  case (2 g)
  then show ?case using set_show_base [of 16 "unat g"] by auto
next
  case (3 g h gs)
  then show ?case using set_show_base [of 16 "unat g"] by auto
qed simp

lemma set_show4: "set (show4 w) \<subseteq> digit_char ` {..<16} \<union> {CHR ''.''}"
proof -
  have itoa: "set (itoa n) \<subseteq> digit_char ` {..<16}" for n
    using set_show_base [of 10 n] by force
  obtain a b c d where "show4 w = itoa (unat (a :: byte)) @ CHR ''.'' # itoa (unat (b :: byte)) @
      CHR ''.'' # itoa (unat (c :: byte)) @ CHR ''.'' # itoa (unat (d :: byte))"
    by (rule show4_eq)
  then show ?thesis
    using itoa [of "unat a"] itoa [of "unat b"] itoa [of "unat c"] itoa [of "unat d"] by auto
qed

lemma set_show6: "set (show6 w) \<subseteq> digit_char ` {..<16} \<union> {CHR '':''}"
proof (cases w rule: show6_cases)
  case full
  then show ?thesis using set_ser [of "split_word 8 w"] by simp
next
  case (run pre k post)
  then show ?thesis using set_ser [of pre] set_ser [of post] by auto
qed

lemma set_show_v6: "set (show_v6 w) \<subseteq> digit_char ` {..<16} \<union> {CHR '':'', CHR ''.''}"
proof -
  have "CHR ''f'' \<in> digit_char ` {..<16}"
    using imageI [of 15 "{..<16 :: nat}" digit_char] by (simp add: digit_char_15)
  then show ?thesis
    using set_show4 [of "ucast w"] set_show6 [of w] by (auto simp: show_v6_def)
qed

lemma notin_text:
  assumes "digit_val c = None"
  shows "c \<noteq> CHR ''.'' \<Longrightarrow> c \<notin> set (show4 w)"
    and "c \<noteq> CHR ''.'' \<Longrightarrow> c \<noteq> CHR '':'' \<Longrightarrow> c \<notin> set (show_v6 v)"
  using assms set_show4 [of w] set_show_v6 [of v] by auto

lemma find_hex: "find (\<lambda>c. c \<in> set ''.:%'') (hex g @ s) = find (\<lambda>c. c \<in> set ''.:%'') s"
proof -
  have "c \<notin> set ''.:%''" if "c \<in> set (hex g)" for c
    using that digit_char_notin [of c 16 "unat g"] by (auto simp: digit_val_def)
  then show ?thesis by (rule find_skip)
qed

lemma find_show_v6: "find (\<lambda>c. c \<in> set ''.:%'') (show_v6 w @ s) = Some (CHR '':'')"
proof (cases "is4in6 w")
  case True
  then show ?thesis by (simp add: show_v6_def)
next
  case False
  show ?thesis
  proof (cases w rule: show6_cases)
    case full
    obtain g h gs where "split_word 8 w = g # h # (gs :: 16 word list)"
      by (rule length_ge_2E [of "split_word 8 w :: 16 word list"]) auto
    then have "show_v6 w @ s = hex g @ CHR '':'' # ser (h # gs) @ s"
      using False full by (simp add: show_v6_def)
    then show ?thesis by (simp only: find_hex) simp
  next
    case (run pre k post)
    show ?thesis
    proof (cases pre)
      case Nil
      then show ?thesis using run(3) False by (simp add: show_v6_def)
    next
      case (Cons g gs)
      then obtain t where "show_v6 w @ s = hex g @ CHR '':'' # t"
        using run(3) False by (cases gs) (auto simp: show_v6_def)
      then show ?thesis by (simp only: find_hex) simp
    qed
  qed
qed

lemma parse_ipv6_no_zone:
  "index_byte s (CHR ''%'') = None \<Longrightarrow> parse_ipv6 s = map_option (\<lambda>w. V6 w []) (v6_text s)"
  by (simp add: parse_ipv6_def v6_text_def option.map_comp comp_def
      del: index_byte_None_iff split: option.split)

lemma parse_ipv6_with_zone:
  "CHR ''%'' \<notin> set s \<Longrightarrow> z \<noteq> [] \<Longrightarrow>
   parse_ipv6 (s @ CHR ''%'' # z) = map_option (\<lambda>w. V6 w z) (v6_text s)"
  by (simp add: parse_ipv6_def v6_text_def index_byte_append option.map_comp comp_def
      split: option.split)

lemma parse_ipv6_zone:
  assumes "v6_text s = Some w" and "CHR ''%'' \<notin> set s"
  shows "parse_ipv6 (with_zone_text s z) = Some (V6 w z)"
proof (cases "z = []")
  case True
  have "index_byte s (CHR ''%'') = None" using assms(2) by simp
  with True assms show ?thesis by (simp add: with_zone_text_def parse_ipv6_no_zone)
next
  case False
  with assms show ?thesis by (simp add: with_zone_text_def parse_ipv6_with_zone)
qed

theorem parse_addr_string: "a \<noteq> ZeroAddr \<Longrightarrow> parse_addr (addr_string a) = Some a"
proof (cases a)
  case (V4 w)
  then show ?thesis by (simp add: addr_string_def parse_addr_show4)
next
  case (V6 w z)
  have "CHR ''%'' \<notin> set (show_v6 w)" by (rule notin_text) simp_all
  then have "parse_ipv6 (with_zone_text (show_v6 w) z) = Some (V6 w z)"
    by (intro parse_ipv6_zone v6_text_show)
  moreover have "find (\<lambda>c. c \<in> set ''.:%'') (with_zone_text (show_v6 w) z) = Some (CHR '':'')"
    using find_show_v6 [of w] find_show_v6 [of w "[]"] by (simp add: with_zone_text_def)
  ultimately show ?thesis
    using V6 by (simp add: addr_string_def parse_addr_def)
qed simp

section \<open>Prefixes\<close>

text \<open>A prefix as the library builds it: a valid one has an address without zone and no more
  bits than the address.\<close>

definition pfx_wf :: "netip_prefix \<Rightarrow> bool" where
  "pfx_wf p \<longleftrightarrow> pfx_valid p \<and> pfx_ip p \<noteq> ZeroAddr \<and> \<not> has_zone (pfx_ip p) \<and>
                pfx_bits p \<le> bit_len (pfx_ip p)"

lemma pfx_marshal_eq:
  "pfx_wf p \<Longrightarrow> pfx_marshal p = addr_string (pfx_ip p) @ CHR ''/'' # itoa (pfx_bits p)"
  by (auto simp: pfx_marshal_def pfx_wf_def zero_prefix_def addr_string_def with_zone_text_def
      has_zone_def split: netip_addr.splits)

lemma slash_notin_addr:
  "\<not> has_zone a \<Longrightarrow> a \<noteq> ZeroAddr \<Longrightarrow> CHR ''/'' \<notin> set (addr_string a)"
  using notin_text [of "CHR ''/''"]
  by (auto simp: addr_string_def has_zone_def with_zone_text_def digit_val_def
      split: netip_addr.splits)

lemma parse_bits_itoa: "parse_bits (itoa n) = Some n"
proof -
  have "hd (itoa n) \<noteq> CHR ''0''" if "1 < length (itoa n)" for n
    using that
  proof (induction n rule: less_induct)
    case (less n)
    then have n: "10 \<le> n" using itoa_1 by (cases "n < 10") auto
    have eq: "itoa n = itoa (n div 10) @ [digit_char (n mod 10)]"
      using n by (subst show_base.simps) simp
    show ?case
    proof (cases "n div 10 < 10")
      case True
      then have "digit_val (digit_char (n div 10)) = Some (n div 10)" "n div 10 \<noteq> 0" using n by auto
      then have "digit_char (n div 10) \<noteq> CHR ''0''" by (auto simp: digit_val_def)
      with True eq show ?thesis by (simp add: itoa_1)
    next
      case False
      then have "1 < length (itoa (n div 10))" by (subst show_base.simps) simp
      with less.IH [of "n div 10"] n have "hd (itoa (n div 10)) \<noteq> CHR ''0''" by simp
      then show ?thesis using eq by simp
    qed
  qed
  then show ?thesis
    by (auto simp: parse_bits_def read_digits_show_base)
qed

theorem parse_prefix_marshal:
  assumes "pfx_wf p"
  shows "parse_prefix (pfx_marshal p) = Some p"
proof -
  have wf: "pfx_ip p \<noteq> ZeroAddr" "\<not> has_zone (pfx_ip p)" "pfx_bits p \<le> bit_len (pfx_ip p)"
    using assms by (simp_all add: pfx_wf_def)
  have "CHR ''/'' \<notin> set (itoa (pfx_bits p))" by (rule digit_char_notin) (simp_all add: digit_val_def)
  then have i: "last_index_byte (pfx_marshal p) (CHR ''/'') = Some (length (addr_string (pfx_ip p)))"
    using assms by (simp add: pfx_marshal_eq last_index_byte_append)
  have "without_zone (pfx_ip p) = pfx_ip p"
    using wf by (auto simp: without_zone_def has_zone_def split: netip_addr.splits)
  moreover have "pfx_bits1 p = pfx_bits p + 1"
    using assms by (simp add: pfx_wf_def pfx_valid_def pfx_bits_def)
  ultimately have "prefix_from (pfx_ip p) (int (pfx_bits p)) = p"
    using wf by (simp add: prefix_from_def)
  then show ?thesis
    using wf assms i
    by (simp add: parse_prefix_def pfx_marshal_eq parse_addr_string parse_bits_itoa)
qed

end
