(* ===== verification/Socks5_Addr.thy ===== *)
theory Socks5_Addr
  imports Go_Io Netip_Text
begin

text \<open>
  The SOCKS5 address of \<open>socks5/addr.go\<close> with the errors of \<open>socks5/errors.go\<close>: setters and
  getters, the text form, the wire form and its reader, and the conversion from a \<open>net.Addr\<close>.
  A nil \<open>*AddrPort\<close> or \<open>net.Addr\<close> is \<open>None\<close>.
\<close>

section \<open>Errors\<close>

datatype socks_error =
    ErrNoAcceptableAuth
  | ErrUnsupportVersion
  | ErrUnauthorized
  | ErrVersionChanged
  | ErrTargetBlocked
  | ErrUnsupportCommand
  | UnsupportVersionError byte
  | IoErr io_error
  | OtherErr string
  | WrapErr string socks_error

definition error_text :: "socks_error \<Rightarrow> string" where
  "error_text e =
     (case e of
        ErrNoAcceptableAuth \<Rightarrow> ''No acceptable auth were offered''
      | ErrUnsupportVersion \<Rightarrow> ''Unsupport packet format verion''
      | ErrUnauthorized \<Rightarrow> ''Unauthorized''
      | ErrVersionChanged \<Rightarrow> ''Version changed after auth''
      | ErrTargetBlocked \<Rightarrow> ''Target address is blocked''
      | ErrUnsupportCommand \<Rightarrow> ''Unsupported command''
      | UnsupportVersionError v \<Rightarrow> ''Unsupport socks version 0x'' @ show_base 16 (unat v)
      | IoErr EOF \<Rightarrow> ''EOF''
      | IoErr UnexpectedEOF \<Rightarrow> ''unexpected EOF''
      | IoErr (NetErr s) \<Rightarrow> s
      | OtherErr s \<Rightarrow> s
      | WrapErr s c \<Rightarrow> s)"

text \<open>\<open>errors.Is\<close>: the error itself or one that it wraps.\<close>

fun is_err :: "socks_error \<Rightarrow> socks_error \<Rightarrow> bool" where
  "is_err e t = (e = t \<or> (case e of WrapErr s c \<Rightarrow> is_err c t | _ \<Rightarrow> False))"

declare is_err.simps [simp del]

lemma is_err_refl [simp]: "is_err e e"
  by (subst is_err.simps) simp

lemma is_err_plain: "(\<And>s c. e \<noteq> WrapErr s c) \<Longrightarrow> is_err e t \<longleftrightarrow> e = t"
  by (subst is_err.simps) (auto split: socks_error.split)

section \<open>Addresses\<close>

definition IPv4Addr :: byte where "IPv4Addr = 0x01"
definition DomainAddr :: byte where "DomainAddr = 0x03"
definition IPv6Addr :: byte where "IPv6Addr = 0x04"

lemmas addr_types = IPv4Addr_def DomainAddr_def IPv6Addr_def

record AddrPort =
  atype :: byte
  adata :: bytes
  aport :: u16

text \<open>\<open>net.IP.To4\<close> and \<open>net.IP.To16\<close>; nil is \<open>None\<close>.\<close>

definition to4 :: "bytes \<Rightarrow> bytes option" where
  "to4 ip =
     (if length ip = 4 then Some ip
      else if length ip = 16 \<and> take 12 ip = replicate 10 0 @ [0xff, 0xff] then Some (drop 12 ip)
      else None)"

definition to16 :: "bytes \<Rightarrow> bytes option" where
  "to16 ip =
     (if length ip = 4 then Some (replicate 10 0 @ [0xff, 0xff] @ ip)
      else if length ip = 16 then Some ip
      else None)"

definition SetIPv4 :: "AddrPort \<Rightarrow> bytes \<Rightarrow> (socks_error, AddrPort) outcome" where
  "SetIPv4 a ip =
     (case to4 ip of
        None \<Rightarrow> Panic (PanicValue ''ip is not a vaild IPv4 IP'')
      | Some d \<Rightarrow> Ok (a\<lparr>atype := IPv4Addr, adata := d\<rparr>))"

definition SetDomain :: "AddrPort \<Rightarrow> string \<Rightarrow> (socks_error, AddrPort) outcome" where
  "SetDomain a domain =
     (if length domain > 0xff then Panic (PanicValue ''Domain size must less than 256'')
      else Ok (a\<lparr>atype := DomainAddr, adata := bytes_of domain\<rparr>))"

definition SetIPv6 :: "AddrPort \<Rightarrow> bytes \<Rightarrow> (socks_error, AddrPort) outcome" where
  "SetIPv6 a ip =
     (case to16 ip of
        None \<Rightarrow> Panic (PanicValue ''ip is not a vaild IPv6 IP'')
      | Some d \<Rightarrow> Ok (a\<lparr>atype := IPv6Addr, adata := d\<rparr>))"

definition GetIPv4 :: "AddrPort \<Rightarrow> bytes option \<times> bool" where
  "GetIPv4 a = (if atype a \<noteq> IPv4Addr then (None, False) else (to4 (adata a), True))"

definition GetDomain :: "AddrPort \<Rightarrow> string \<times> bool" where
  "GetDomain a = (if atype a \<noteq> DomainAddr then ([], False) else (string_of (adata a), True))"

definition GetIPv6 :: "AddrPort \<Rightarrow> bytes option \<times> bool" where
  "GetIPv6 a = (if atype a \<noteq> IPv6Addr then (None, False) else (to16 (adata a), True))"

text \<open>The text form; the conversions \<open>([4]byte)(a.Data)\<close> and \<open>([16]byte)(a.Data)\<close> panic on a
  shorter slice and take the first bytes of a longer one.\<close>

definition addrport_text :: "AddrPort \<Rightarrow> (socks_error, string) outcome" where
  "addrport_text a =
     (if atype a = IPv4Addr then
        (if length (adata a) < 4 then Panic SliceToArray
         else Ok (addrport_string (V4 (join_words (take 4 (adata a)))) (aport a)))
      else if atype a = IPv6Addr then
        (if length (adata a) < 16 then Panic SliceToArray
         else Ok (addrport_string (V6 (join_words (take 16 (adata a))) []) (aport a)))
      else if atype a = DomainAddr then
        Ok (string_of (adata a) @ '':'' @ itoa (unat (aport a)))
      else Panic (PanicValue ''Unknown addr type''))"

subsection \<open>The wire form\<close>

text \<open>\<open>ReadFrom\<close>, with the number of bytes it consumed.\<close>

definition addr_read_rest ::
  "byte \<Rightarrow> nat \<Rightarrow> nat \<Rightarrow> ('a sock_scheme) \<Rightarrow> (socks_error, AddrPort \<times> nat) outcome \<times> 'a sock_scheme"
  where
  "addr_read_rest t len n =
     sbind (smap_err IoErr (sk_read_full len)) (\<lambda>data.
     sbind (smap_err IoErr (sk_read_full 2)) (\<lambda>port.
       sret (\<lparr>atype = t, adata = data, aport = be16 (port ! 0) (port ! 1)\<rparr>, n + len + 2)))"

definition addr_read_from ::
  "('a sock_scheme) \<Rightarrow> (socks_error, AddrPort \<times> nat) outcome \<times> 'a sock_scheme" where
  "addr_read_from =
     sbind (smap_err IoErr sk_read_byte) (\<lambda>t.
       if t = IPv4Addr then addr_read_rest t 4 1
       else if t = DomainAddr then
         sbind (smap_err IoErr sk_read_byte) (\<lambda>l. addr_read_rest t (unat l) 2)
       else if t = IPv6Addr then addr_read_rest t 16 1
       else sfail ErrUnsupportVersion)"

definition addr_marshal_binary :: "AddrPort option \<Rightarrow> (socks_error, bytes) outcome" where
  "addr_marshal_binary a =
     (case a of
        None \<Rightarrow> Ok [IPv4Addr, 0, 0, 0, 0, 0, 0]
      | Some a \<Rightarrow>
          obind (if atype a = IPv4Addr then
                   (if length (adata a) \<noteq> 4
                    then Panic (PanicValue ''socks5: Data's length for IPv4 must be 4'')
                    else Ok [atype a])
                 else if atype a = DomainAddr then
                   (if length (adata a) > 0xff
                    then Panic (PanicValue ''socks5: domain's size is to large (must <= 0xff)'')
                    else Ok [atype a, len_byte (length (adata a))])
                 else if atype a = IPv6Addr then
                   (if length (adata a) \<noteq> 16
                    then Panic (PanicValue ''socks5: Data's length for IPv6 must be 16'')
                    else Ok [atype a])
                 else Err ErrUnsupportVersion)
          (\<lambda>buf. Ok (buf @ adata a @ [hi_byte (aport a), lo_byte (aport a)])))"

definition addr_write_to ::
  "AddrPort option \<Rightarrow> ('a sock_scheme) \<Rightarrow> (socks_error, nat) outcome \<times> 'a sock_scheme" where
  "addr_write_to a s =
     (case addr_marshal_binary a of
        Ok buf \<Rightarrow> sbind (smap_err IoErr (sk_write buf)) (\<lambda>_. sret (length buf)) s
      | Err e \<Rightarrow> (Err e, s)
      | Panic p \<Rightarrow> (Panic p, s)
      | Hang \<Rightarrow> (Hang, s))"

subsection \<open>From a \<open>net.Addr\<close>\<close>

text \<open>\<open>netip.ParseAddrPort\<close>.\<close>

definition parse_addrport :: "string \<Rightarrow> (netip_addr \<times> u16) option" where
  "parse_addrport s =
     (case last_index_byte s (CHR '':'') of
        None \<Rightarrow> None
      | Some i \<Rightarrow>
          let ip0 = take i s; port = drop (i + 1) s; v6 = (ip0 \<noteq> [] \<and> hd ip0 = CHR ''['')
          in if ip0 = [] \<or> port = [] then None
             else if v6 \<and> (length ip0 < 2 \<or> last ip0 \<noteq> CHR '']'') then None
             else let ip = (if v6 then butlast (tl ip0) else ip0)
                  in (case parse_uint16 port of
                        Inl e \<Rightarrow> None
                      | Inr p \<Rightarrow>
                          (case parse_addr ip of
                             None \<Rightarrow> None
                           | Some a \<Rightarrow>
                               if v6 \<and> bit_len a = 32 then None
                               else if \<not> v6 \<and> bit_len a = 128 then None
                               else Some (a, word_of_nat p))))"

definition AddrPortFromNetAddr :: "string option \<Rightarrow> (socks_error, AddrPort option) outcome" where
  "AddrPortFromNetAddr na =
     (case na of
        None \<Rightarrow> Ok None
      | Some s \<Rightarrow>
          (case parse_addrport s of
             None \<Rightarrow> Err (OtherErr s)
           | Some (a, port) \<Rightarrow>
               let data = as_slice a
               in if length data = 4 then Ok (Some \<lparr>atype = IPv4Addr, adata = data, aport = port\<rparr>)
                  else if length data = 16
                  then Ok (Some \<lparr>atype = IPv6Addr, adata = data, aport = port\<rparr>)
                  else Ok (Some \<lparr>atype = IPv4Addr,
                                adata = replicate 10 0 @ [0xff, 0xff, 0, 0, 0, 0],
                                aport = port\<rparr>)))"

section \<open>Well-formed addresses\<close>

definition addr_wf :: "AddrPort \<Rightarrow> bool" where
  "addr_wf a \<longleftrightarrow>
     atype a = IPv4Addr \<and> length (adata a) = 4 \<or>
     atype a = IPv6Addr \<and> length (adata a) = 16 \<or>
     atype a = DomainAddr \<and> length (adata a) < 256"

definition wire_form :: "AddrPort \<Rightarrow> bytes" where
  "wire_form a =
     [atype a] @ (if atype a = DomainAddr then [len_byte (length (adata a))] else []) @ adata a @
     [hi_byte (aport a), lo_byte (aport a)]"

lemma addr_wf_cases:
  assumes "addr_wf a"
  obtains (v4) "atype a = IPv4Addr" "length (adata a) = 4"
  | (v6) "atype a = IPv6Addr" "length (adata a) = 16"
  | (domain) "atype a = DomainAddr" "length (adata a) < 256"
  using assms by (auto simp: addr_wf_def)

lemma marshal_wf: "addr_wf a \<Longrightarrow> addr_marshal_binary (Some a) = Ok (wire_form a)"
  by (erule addr_wf_cases) (simp_all add: addr_marshal_binary_def wire_form_def addr_types)

lemma addr_read_rest_ok:
  assumes "sk_in s = data @ hi_byte p # lo_byte p # rest" and "len = length data"
  shows "addr_read_rest t len n s =
    (Ok (\<lparr>atype = t, adata = data, aport = p\<rparr>, n + len + 2), s\<lparr>sk_in := rest\<rparr>)"
proof -
  have "smap_err IoErr (sk_read_full len) s = (Ok data, s\<lparr>sk_in := hi_byte p # lo_byte p # rest\<rparr>)"
    using assms by (intro smap_err_simps sk_read_full_append)
  moreover have "smap_err IoErr (sk_read_full 2) (s\<lparr>sk_in := hi_byte p # lo_byte p # rest\<rparr>) =
      (Ok [hi_byte p, lo_byte p], s\<lparr>sk_in := rest\<rparr>)"
    by (simp add: smap_err_def sk_read_full_def)
  ultimately show ?thesis by (simp add: addr_read_rest_def io_simps)
qed

lemma addr_read_wire:
  assumes "addr_wf a" and "sk_in s = wire_form a @ rest"
  shows "addr_read_from s = (Ok (a, length (wire_form a)), s\<lparr>sk_in := rest\<rparr>)"
  using assms(1)
proof (cases rule: addr_wf_cases)
  case v4
  then have "sk_in s = IPv4Addr # adata a @ hi_byte (aport a) # lo_byte (aport a) # rest"
    using assms(2) by (simp add: wire_form_def addr_types)
  then show ?thesis
    using v4 by (simp add: addr_read_from_def io_simps addr_read_rest_ok wire_form_def addr_types)
next
  case v6
  then have "sk_in s = IPv6Addr # adata a @ hi_byte (aport a) # lo_byte (aport a) # rest"
    using assms(2) by (simp add: wire_form_def addr_types)
  then show ?thesis
    using v6 by (simp add: addr_read_from_def io_simps addr_read_rest_ok wire_form_def addr_types)
next
  case domain
  then have "sk_in s = DomainAddr # len_byte (length (adata a)) # adata a @
      hi_byte (aport a) # lo_byte (aport a) # rest"
    using assms(2) by (simp add: wire_form_def)
  then show ?thesis
    using domain
    by (simp add: addr_read_from_def io_simps addr_read_rest_ok wire_form_def addr_types)
qed

lemma marshal_Ok_iff: "addr_marshal_binary (Some a) = Ok buf \<longleftrightarrow> addr_wf a \<and> buf = wire_form a"
  by (auto simp: addr_marshal_binary_def addr_wf_def wire_form_def addr_types split: if_splits)

text \<open>A reader that hits the end of the stream inside an address.\<close>

definition short_err :: "(socks_error, 'a) outcome \<Rightarrow> bool" where
  "short_err r = (r = Err (IoErr EOF) \<or> r = Err (IoErr UnexpectedEOF))"

lemma smap_read_short:
  assumes "length (sk_in s) < n" and "sk_end s = EOF"
  shows "short_err (fst (sbind (smap_err IoErr (sk_read_full n)) f s))"
  using assms by (auto simp: short_err_def sbind_def smap_err_def sk_read_full_def)

lemma addr_read_rest_short:
  assumes "length (sk_in s) < len + 2" and "sk_end s = EOF"
  shows "short_err (fst (addr_read_rest t len n s))"
proof (cases "len \<le> length (sk_in s)")
  case True
  then have data: "smap_err IoErr (sk_read_full len) s =
      (Ok (take len (sk_in s)), s\<lparr>sk_in := drop len (sk_in s)\<rparr>)"
    by (simp add: smap_err_def sk_read_full_def)
  show ?thesis
    unfolding addr_read_rest_def sbind_simps(1) [of "smap_err IoErr (sk_read_full len)", OF data]
    using assms by (intro smap_read_short) simp_all
next
  case False
  then show ?thesis
    unfolding addr_read_rest_def using assms(2) by (intro smap_read_short) simp_all
qed

lemma addr_read_short:
  assumes "addr_wf a" and "k < length (wire_form a)" and "sk_in s = take k (wire_form a)"
    and "sk_end s = EOF"
  shows "short_err (fst (addr_read_from s))"
proof (cases k)
  case 0
  then show ?thesis
    using assms(3,4) by (simp add: addr_read_from_def io_simps short_err_def)
next
  case (Suc j)
  let ?s = "\<lambda>bs. s\<lparr>sk_in := bs\<rparr>"
  from assms(1) show ?thesis
  proof (cases rule: addr_wf_cases)
    case v4
    then show ?thesis
      using assms Suc addr_read_rest_short [of "?s (take j (tl (wire_form a)))" 4]
      by (simp add: wire_form_def addr_types addr_read_from_def io_simps)
  next
    case v6
    then show ?thesis
      using assms Suc addr_read_rest_short [of "?s (take j (tl (wire_form a)))" 16]
      by (simp add: wire_form_def addr_types addr_read_from_def io_simps)
  next
    case domain
    show ?thesis
    proof (cases j)
      case 0
      then show ?thesis
        using domain assms Suc
        by (simp add: wire_form_def addr_types addr_read_from_def io_simps short_err_def)
    next
      case (Suc i)
      then show ?thesis
        using domain assms \<open>k = Suc j\<close>
          addr_read_rest_short [of "?s (take i (drop 2 (wire_form a)))" "length (adata a)"]
        by (simp add: wire_form_def addr_types addr_read_from_def io_simps)
    qed
  qed
qed

section \<open>The text form read back\<close>

lemma take_is_all: "length xs = n \<Longrightarrow> take n xs = xs"
  by simp

lemma not_colon_itoa: "CHR '':'' \<notin> set (itoa n)"
  by (rule digit_char_notin) (simp_all add: digit_val_def)

lemma port_bound: "unat (p :: u16) < 65536"
  using unsigned_less [of p] by simp

lemma parse_addrport_V4: "parse_addrport (show4 w @ CHR '':'' # itoa (unat p)) = Some (V4 w, p)"
proof -
  have "CHR ''['' \<notin> set (show4 w)" by (rule notin_text) (simp_all add: digit_val_def)
  moreover have ne: "show4 w \<noteq> []" by (rule show4_eq [of w]) simp
  ultimately have "hd (show4 w) \<noteq> CHR ''[''" by (metis hd_in_set)
  then show ?thesis
    using ne not_colon_itoa port_bound [of p] parse_addr_string [of "V4 w"]
    by (simp add: parse_addrport_def last_index_byte_append bit_len_def addr_string_def has_zone_def)
qed

lemma parse_addrport_V6:
  "parse_addrport (CHR ''['' # show_v6 w @ CHR '']'' # CHR '':'' # itoa (unat p)) = Some (V6 w [], p)"
proof -
  have "last_index_byte ((CHR ''['' # show_v6 w @ [CHR '']'']) @ CHR '':'' # itoa (unat p)) (CHR '':'') =
      Some (length (CHR ''['' # show_v6 w @ [CHR '']'']))"
    by (rule last_index_byte_append) (rule not_colon_itoa)
  then show ?thesis
    using port_bound [of p] parse_addr_string [of "V6 w []"]
    by (simp add: parse_addrport_def bit_len_def addr_string_def has_zone_def with_zone_text_def)
qed

lemma addr_text_v4:
  assumes "atype a = IPv4Addr" and "length (adata a) = 4"
  shows "addrport_text a = Ok (show4 (join_words (adata a)) @ CHR '':'' # itoa (unat (aport a)))"
  using assms by (simp add: addrport_text_def addrport_string_def addr_types)

lemma addr_text_v6:
  assumes "atype a = IPv6Addr" and "length (adata a) = 16"
  shows "addrport_text a =
    Ok (CHR ''['' # show_v6 (join_words (adata a)) @ CHR '']'' # CHR '':'' # itoa (unat (aport a)))"
  using assms
  by (simp add: addrport_text_def addrport_string_def addr_types addr_string_def with_zone_text_def)

lemma addr_text_read_back:
  assumes "atype a = IPv4Addr \<and> length (adata a) = 4 \<or> atype a = IPv6Addr \<and> length (adata a) = 16"
  shows "\<exists>t. addrport_text a = Ok t \<and> AddrPortFromNetAddr (Some t) = Ok (Some a)"
  using assms
proof (elim disjE conjE)
  assume a: "atype a = IPv4Addr" "length (adata a) = 4"
  have "split_word (length (adata a)) (join_words (adata a) :: 32 word) = adata a"
    by (rule split_join_words) (simp add: a)
  then show ?thesis
    using a by (simp add: addr_text_v4 AddrPortFromNetAddr_def parse_addrport_V4 as_slice_def)
next
  assume a: "atype a = IPv6Addr" "length (adata a) = 16"
  have "split_word (length (adata a)) (join_words (adata a) :: 128 word) = adata a"
    by (rule split_join_words) (simp add: a)
  then show ?thesis
    using a by (simp add: addr_text_v6 AddrPortFromNetAddr_def parse_addrport_V6 as_slice_def)
qed

section \<open>Properties\<close>

text \<open>C29: Wire round trip. \<open>ReadFrom\<close> on what \<open>MarshalBinary\<close> produced, whatever bytes follow,
  gives back the address, counts exactly its bytes and leaves the rest unread; and a stream that
  ends anywhere inside those bytes gives an end-of-file error, never a shorter address.\<close>

theorem socks_addr_wire_roundtrip:
  assumes "addr_wf a"
  shows "\<exists>buf. addr_marshal_binary (Some a) = Ok buf \<and>
    addr_read_from (s\<lparr>sk_in := buf @ rest\<rparr>) = (Ok (a, length buf), s\<lparr>sk_in := rest\<rparr>) \<and>
    {k. k < length buf \<and> \<not> short_err (fst (addr_read_from (s\<lparr>sk_in := take k buf, sk_end := EOF\<rparr>)))} = {}"
  using addr_read_wire [OF assms, of "s\<lparr>sk_in := wire_form a @ rest\<rparr>" rest]
    addr_read_short [OF assms, where s = "s\<lparr>sk_in := take k (wire_form a), sk_end := EOF\<rparr>" for k]
  by (auto simp: marshal_wf [OF assms])

theorem socks_addr_wire_roundtrip_witness:
  "\<exists>buf. addr_marshal_binary (Some \<lparr>atype = 3, adata = bytes_of ''wpn.org'', aport = 443\<rparr>) = Ok buf \<and>
    addr_read_from (\<lparr>sk_in = [], sk_end = EOF, sk_out = [], sk_wres = []\<rparr>\<lparr>sk_in := buf @ [7, 8]\<rparr>) =
      (Ok (\<lparr>atype = 3, adata = bytes_of ''wpn.org'', aport = 443\<rparr>, length buf),
       \<lparr>sk_in = [], sk_end = EOF, sk_out = [], sk_wres = []\<rparr>\<lparr>sk_in := [7, 8]\<rparr>)"
  using socks_addr_wire_roundtrip
    [where a = "\<lparr>atype = 3, adata = bytes_of ''wpn.org'', aport = 443\<rparr>" and rest = "[7, 8]"
       and s = "\<lparr>sk_in = [], sk_end = EOF, sk_out = [], sk_wres = []\<rparr>"]
  by (auto simp: addr_wf_def addr_types)

text \<open>\<open>MarshalBinary\<close> on every input: it returns bytes exactly for an IPv4 address of four
  bytes, an IPv6 address of sixteen and a domain name of at most 255, and these bytes are the
  SOCKS5 form; an unknown type is \<open>ErrUnsupportVersion\<close>, and every other address panics.\<close>

theorem socks_addr_marshal_spec:
  "(addr_marshal_binary (Some a) = Ok buf \<longleftrightarrow> addr_wf a \<and> buf = wire_form a) \<and>
   (addr_marshal_binary (Some a) = Err e \<longleftrightarrow>
      atype a \<notin> {IPv4Addr, DomainAddr, IPv6Addr} \<and> e = ErrUnsupportVersion) \<and>
   ((\<exists>p. addr_marshal_binary (Some a) = Panic p) \<longleftrightarrow>
      atype a \<in> {IPv4Addr, DomainAddr, IPv6Addr} \<and> \<not> addr_wf a)"
  using marshal_Ok_iff [of a buf]
  by (auto simp: addr_marshal_binary_def addr_wf_def addr_types split: if_splits)

text \<open>Text round trip. An IPv4 or IPv6 address, mapped ones included, printed by \<open>String\<close> and
  read as a \<open>net.Addr\<close> by \<open>AddrPortFromNetAddr\<close>, is the same address with the same port.\<close>

theorem socks_addr_text_roundtrip:
  assumes "addr_wf a" and "atype a \<noteq> DomainAddr"
  shows "\<exists>t. addrport_text a = Ok t \<and> AddrPortFromNetAddr (Some t) = Ok (Some a)"
  using assms by (intro addr_text_read_back) (auto simp: addr_wf_def)

theorem socks_addr_text_roundtrip_witness:
  "\<exists>t. addrport_text \<lparr>atype = 1, adata = [10, 0, 0, 7], aport = 80\<rparr> = Ok t \<and>
     AddrPortFromNetAddr (Some t) = Ok (Some \<lparr>atype = 1, adata = [10, 0, 0, 7], aport = 80\<rparr>)"
  using socks_addr_text_roundtrip [of "\<lparr>atype = 1, adata = [10, 0, 0, 7], aport = 80\<rparr>"]
  by (simp add: addr_wf_def addr_types)

end
