(* ===== verification/Socks5_Server.thy ===== *)
theory Socks5_Server
  imports Socks5_Addr
begin

text \<open>
  The SOCKS5 server of \<open>socks5/conn.go\<close> and \<open>socks5/server.go\<close> with the codes of
  \<open>socks5/status.go\<close>. A client connection is a socket with the version it announced; the state
  also records the calls made to the handler and the connection to the target. The handler and
  the user guard are fields of the server record: they are interfaces that the program is given.
\<close>

section \<open>Constants\<close>

definition Socks5Version :: byte where "Socks5Version = 0x05"

definition NoAuth :: byte where "NoAuth = 0x00"
definition GSSAPIAuth :: byte where "GSSAPIAuth = 0x01"
definition UserAuth :: byte where "UserAuth = 0x02"
definition noAcceptableAuth :: byte where "noAcceptableAuth = 0xff"

definition CmdDialTCP :: byte where "CmdDialTCP = 0x01"
definition CmdBindTCP :: byte where "CmdBindTCP = 0x02"
definition CmdForwardUDP :: byte where "CmdForwardUDP = 0x03"

datatype StatusCode =
    StatusGranted | StatusFailed | StatusBlocked | StatusNetworkUnreachable
  | StatusHostUnreachable | StatusRefused | StatusTLLExpired | StatusCommandUnsupported
  | StatusAddrTypeUnsupported

fun status_code :: "StatusCode \<Rightarrow> byte" where
  "status_code StatusGranted = 0x00"
| "status_code StatusFailed = 0x01"
| "status_code StatusBlocked = 0x02"
| "status_code StatusNetworkUnreachable = 0x03"
| "status_code StatusHostUnreachable = 0x04"
| "status_code StatusRefused = 0x05"
| "status_code StatusTLLExpired = 0x06"
| "status_code StatusCommandUnsupported = 0x07"
| "status_code StatusAddrTypeUnsupported = 0x08"

text \<open>The status codes are finitely many, and distinct on the wire.\<close>

instantiation StatusCode :: enum
begin

definition enum_StatusCode :: "StatusCode list" where
  "enum_StatusCode = [StatusGranted, StatusFailed, StatusBlocked, StatusNetworkUnreachable,
     StatusHostUnreachable, StatusRefused, StatusTLLExpired, StatusCommandUnsupported, StatusAddrTypeUnsupported]"

definition enum_all_StatusCode :: "(StatusCode \<Rightarrow> bool) \<Rightarrow> bool" where
  "enum_all_StatusCode P \<longleftrightarrow> list_all P enum_class.enum"

definition enum_ex_StatusCode :: "(StatusCode \<Rightarrow> bool) \<Rightarrow> bool" where
  "enum_ex_StatusCode P \<longleftrightarrow> list_ex P enum_class.enum"

instance
proof
  show univ: "(UNIV :: StatusCode set) = set enum_class.enum"
    unfolding enum_StatusCode_def using StatusCode.exhaust by auto
  show "distinct (enum_class.enum :: StatusCode list)" by (simp add: enum_StatusCode_def)
  show "enum_class.enum_all P \<longleftrightarrow> Ball UNIV P" "enum_class.enum_ex P \<longleftrightarrow> Bex UNIV P" for P :: "StatusCode \<Rightarrow> bool"
    by (simp_all add: enum_all_StatusCode_def enum_ex_StatusCode_def list_all_iff list_ex_iff univ)
qed

end

lemma status_code_inj: "status_code a = status_code b \<longleftrightarrow> a = b"
proof -
  have "\<forall>a b. status_code a = status_code b \<longrightarrow> a = b" by code_simp
  then show ?thesis by blast
qed

lemmas socks_consts =
  Socks5Version_def NoAuth_def GSSAPIAuth_def UserAuth_def noAcceptableAuth_def
  CmdDialTCP_def CmdBindTCP_def CmdForwardUDP_def

section \<open>Handler, server and connection\<close>

text \<open>The context of a dial: the server's, with a timeout if one is configured.\<close>

datatype dial_ctx = WithTimeout int | WithCancel

text \<open>A listener is its address and what \<open>Accept\<close> gives: the local address and the socket of
  the connection.\<close>

record tcp_listener =
  ls_addr :: "string option"
  ls_accept :: "(socks_error, string option \<times> sock) outcome"

record handler =
  DialTCP :: "dial_ctx \<Rightarrow> AddrPort \<Rightarrow> (socks_error, sock) outcome"
  BindTCP :: "dial_ctx \<Rightarrow> AddrPort \<Rightarrow> (socks_error, tcp_listener) outcome"

datatype server_ctx = Running | Cancelled

record Server =
  sv_handler :: handler
  sv_guard :: "(string \<Rightarrow> string \<Rightarrow> bool) option"
  sv_timeout :: int
  sv_ctx :: "server_ctx option"

datatype hcall = DialCall dial_ctx AddrPort | BindCall dial_ctx AddrPort

record conn = sock +
  cn_version :: byte
  cn_calls :: "hcall list"
  cn_target :: "sock option"

definition new_conn :: "sock \<Rightarrow> conn" where
  "new_conn s = \<lparr>sk_in = sk_in s, sk_end = sk_end s, sk_out = sk_out s, sk_wres = sk_wres s,
     cn_version = 0, cn_calls = [], cn_target = None\<rparr>"

type_synonym 'a conn_op = "conn \<Rightarrow> (socks_error, 'a) outcome \<times> conn"

definition c_read_byte :: "byte conn_op" where
  "c_read_byte = smap_err IoErr sk_read_byte"

definition c_read_full :: "nat \<Rightarrow> bytes conn_op" where
  "c_read_full n = smap_err IoErr (sk_read_full n)"

definition c_write :: "bytes \<Rightarrow> unit conn_op" where
  "c_write bs = smap_err IoErr (sk_write bs)"

section \<open>Messages\<close>

definition readHandShake :: "bytes conn_op" where
  "readHandShake =
     sbind c_read_byte (\<lambda>v c.
       let c = c\<lparr>cn_version := v\<rparr>
       in if v \<noteq> Socks5Version then (Err (UnsupportVersionError v), c)
          else sbind c_read_byte (\<lambda>l. c_read_full (unat l)) c)"

definition readAndVaildVersion :: "unit conn_op" where
  "readAndVaildVersion =
     sbind c_read_byte (\<lambda>v c. if v \<noteq> cn_version c then (Err ErrVersionChanged, c) else (Ok (), c))"

definition readRequest :: "(byte \<times> AddrPort) conn_op" where
  "readRequest =
     sbind readAndVaildVersion (\<lambda>_.
     sbind c_read_byte (\<lambda>cmd.
     sbind c_read_byte (\<lambda>_.
     sbind addr_read_from (\<lambda>(addr, n). sret (cmd, addr)))))"

definition sendResponse :: "StatusCode \<Rightarrow> AddrPort option \<Rightarrow> unit conn_op" where
  "sendResponse status addr c =
     sbind (c_write [cn_version c, status_code status, 0]) (\<lambda>_.
     sbind (addr_write_to addr) (\<lambda>_. sret ())) c"

definition error_status :: "socks_error \<Rightarrow> StatusCode" where
  "error_status e =
     (if is_err e ErrUnsupportVersion then StatusAddrTypeUnsupported
      else if is_err e ErrUnsupportCommand then StatusCommandUnsupported
      else if is_err e ErrTargetBlocked then StatusBlocked
      else let msg = error_text e
           in if contains_str msg ''refused'' then StatusRefused
              else if contains_str msg ''unreachable'' then
                (if contains_str msg ''network'' then StatusNetworkUnreachable
                 else StatusHostUnreachable)
              else if contains_str msg ''blocked'' \<or> contains_str msg ''not allowed''
              then StatusBlocked
              else StatusFailed)"

definition sendErrorResponse :: "socks_error \<Rightarrow> unit conn_op" where
  "sendErrorResponse e = sendResponse (error_status e) None"

section \<open>Authentication\<close>

definition user_auth :: "(string \<Rightarrow> string \<Rightarrow> bool) \<Rightarrow> bool conn_op" where
  "user_auth g =
     sbind c_read_byte (\<lambda>b.
       if b \<noteq> 0x01 then sfail ErrUnsupportVersion
       else
         sbind c_read_byte (\<lambda>l.
         sbind (c_read_full (unat l)) (\<lambda>id.
         sbind c_read_byte (\<lambda>l.
         sbind (c_read_full (unat l)) (\<lambda>pw.
           if \<not> g (string_of id) (string_of pw)
           then sbind (c_write [0x01, 0xff]) (\<lambda>_. sfail ErrUnauthorized)
           else sbind (c_write [0x01, 0x00]) (\<lambda>_. sret True))))))"

definition tryAuth :: "Server \<Rightarrow> byte \<Rightarrow> bool conn_op" where
  "tryAuth s auth =
     (if auth = NoAuth then sbind (c_write [Socks5Version, auth]) (\<lambda>_. sret True)
      else if auth = UserAuth then
        (case sv_guard s of None \<Rightarrow> sret False | Some g \<Rightarrow> user_auth g)
      else sret False)"

fun auth_loop :: "Server \<Rightarrow> byte list \<Rightarrow> bool conn_op" where
  "auth_loop s [] = sret False"
| "auth_loop s (a # auths) = sbind (tryAuth s a) (\<lambda>ok. if ok then sret True else auth_loop s auths)"

section \<open>Requests\<close>

text \<open>The two copies between client and target. \<open>Handle\<close> ends with the one from the target;
  \<open>up\<close> is the number of the client's bytes that the other goroutine has passed on by then.\<close>

definition relay :: "nat \<Rightarrow> sock \<Rightarrow> unit conn_op" where
  "relay up t c =
     (let t' = (if take up (sk_in c) = [] then t else snd (sk_write (take up (sk_in c)) t));
          (r, c', t'') = sk_copy (c\<lparr>sk_in := drop up (sk_in c)\<rparr>) t'
      in (map_err IoErr r, c'\<lparr>cn_target := Some t''\<rparr>))"

definition lift_out :: "(socks_error, 'a) outcome \<Rightarrow> 'a conn_op" where
  "lift_out r c = (r, c)"

text \<open>A call to the handler: an error is answered with an error response, whose own result is
  what \<open>Handle\<close> returns.\<close>

definition or_error_response ::
  "(socks_error, 'a) outcome \<Rightarrow> ('a \<Rightarrow> unit conn_op) \<Rightarrow> unit conn_op" where
  "or_error_response r f =
     (case r of
        Ok x \<Rightarrow> f x
      | Err e \<Rightarrow> sendErrorResponse e
      | Panic p \<Rightarrow> (\<lambda>c. (Panic p, c))
      | Hang \<Rightarrow> (\<lambda>c. (Hang, c)))"

definition log_call :: "hcall \<Rightarrow> unit conn_op" where
  "log_call h c = (Ok (), c\<lparr>cn_calls := cn_calls c @ [h]\<rparr>)"

definition dial_request :: "Server \<Rightarrow> nat \<Rightarrow> dial_ctx \<Rightarrow> AddrPort \<Rightarrow> unit conn_op" where
  "dial_request s up ctx addr =
     sbind (log_call (DialCall ctx addr)) (\<lambda>_.
       or_error_response (DialTCP (sv_handler s) ctx addr) (\<lambda>t.
         sbind (sendResponse StatusGranted None) (\<lambda>_. relay up t)))"

definition bind_request :: "Server \<Rightarrow> nat \<Rightarrow> dial_ctx \<Rightarrow> AddrPort \<Rightarrow> unit conn_op" where
  "bind_request s up ctx addr =
     sbind (log_call (BindCall ctx addr)) (\<lambda>_.
       or_error_response (BindTCP (sv_handler s) ctx addr) (\<lambda>l.
         sbind (lift_out (AddrPortFromNetAddr (ls_addr l))) (\<lambda>ladr.
         sbind (sendResponse StatusGranted ladr) (\<lambda>_.
           or_error_response (ls_accept l) (\<lambda>(la, t).
             sbind (lift_out (AddrPortFromNetAddr la)) (\<lambda>laddr.
             sbind (sendResponse StatusGranted laddr) (\<lambda>_. relay up t)))))))"

text \<open>\<open>CmdForwardUDP\<close> breaks out of the switch before its code, like every unknown command.\<close>

definition handle_request :: "Server \<Rightarrow> nat \<Rightarrow> dial_ctx \<Rightarrow> unit conn_op" where
  "handle_request s up ctx c =
     (case readRequest c of
        (Ok (cmd, addr), c) \<Rightarrow>
          (if cmd = CmdDialTCP then dial_request s up ctx addr c
           else if cmd = CmdBindTCP then bind_request s up ctx addr c
           else sendResponse StatusCommandUnsupported None c)
      | (Err e, c) \<Rightarrow> sendErrorResponse e c
      | (Panic p, c) \<Rightarrow> (Panic p, c)
      | (Hang, c) \<Rightarrow> (Hang, c))"

text \<open>\<open>context.WithTimeout\<close> and \<open>context.WithCancel\<close> panic on the nil context of a server that
  was not initialised.\<close>

definition Handle :: "Server \<Rightarrow> nat \<Rightarrow> sock \<Rightarrow> (socks_error, unit) outcome \<times> conn" where
  "Handle s up netconn =
     (case sv_ctx s of
        None \<Rightarrow> (Panic (PanicValue ''cannot create context from nil parent''), new_conn netconn)
      | Some _ \<Rightarrow>
          let ctx = (if sv_timeout s > 0 then WithTimeout (sv_timeout s) else WithCancel)
          in sbind readHandShake (\<lambda>auths.
             sbind (auth_loop s auths) (\<lambda>ok.
               if \<not> ok then sbind (c_write [Socks5Version, noAcceptableAuth])
                             (\<lambda>_. sfail ErrNoAcceptableAuth)
               else handle_request s up ctx)) (new_conn netconn))"

section \<open>The server\<close>

definition server_init :: "Server \<Rightarrow> Server" where
  "server_init s = (if sv_ctx s = None then s\<lparr>sv_ctx := Some Running\<rparr> else s)"

text \<open>\<open>Serve\<close> on a listener that hands out \<open>accepted\<close> (each with the progress of its relay) and
  then fails: one goroutine of \<open>Handle\<close> per connection. A cancelled server closes the listener.\<close>

definition Serve ::
  "Server \<Rightarrow> (nat \<times> sock) list \<Rightarrow> socks_error \<Rightarrow>
     Server \<times> ((socks_error, unit) outcome \<times> conn) list \<times> socks_error" where
  "Serve s accepted acc_err =
     (let s = server_init s in (s, map (\<lambda>(up, k). Handle s up k) accepted, acc_err))"

definition Shutdown :: "Server \<Rightarrow> (socks_error, Server) outcome" where
  "Shutdown s =
     (case sv_ctx s of None \<Rightarrow> Panic NilDereference | Some _ \<Rightarrow> Ok (s\<lparr>sv_ctx := Some Cancelled\<rparr>))"

definition DefaultSocksPort :: string where "DefaultSocksPort = '':1080''"

definition listen_address :: "string \<Rightarrow> string" where
  "listen_address addr = (if addr = [] then DefaultSocksPort else addr)"

text \<open>\<open>ListenAndServe\<close>: \<open>listen\<close> gives the error of opening the listener, if there is one.\<close>

definition server_ListenAndServe ::
  "string \<Rightarrow> (string \<Rightarrow> string option) \<Rightarrow> Server \<Rightarrow> (nat \<times> sock) list \<Rightarrow> socks_error \<Rightarrow>
     Server \<times> ((socks_error, unit) outcome \<times> conn) list \<times> socks_error" where
  "server_ListenAndServe addr listen s accepted acc_err =
     (case listen (listen_address addr) of
        Some e \<Rightarrow> (s, [], OtherErr e)
      | None \<Rightarrow> Serve s accepted acc_err)"

text \<open>The functions of the package, which make a server of their own.\<close>

definition plain_server :: "handler \<Rightarrow> Server" where
  "plain_server h = \<lparr>sv_handler = h, sv_guard = None, sv_timeout = 0, sv_ctx = None\<rparr>"

definition socks_Serve where
  "socks_Serve h = Serve (plain_server h)"

definition socks_ListenAndServe where
  "socks_ListenAndServe addr listen h = server_ListenAndServe addr listen (plain_server h)"

section \<open>Evaluation of each step\<close>

lemma c_read_byte_Cons [io_simps]: "sk_in c = b # bs \<Longrightarrow> c_read_byte c = (Ok b, c\<lparr>sk_in := bs\<rparr>)"
  by (simp add: c_read_byte_def io_simps)

lemma c_read_byte_Nil [io_simps]: "sk_in c = [] \<Longrightarrow> c_read_byte c = (Err (IoErr (sk_end c)), c)"
  by (simp add: c_read_byte_def io_simps)

lemma c_read_full_append [io_simps]:
  "sk_in c = xs @ ys \<Longrightarrow> n = length xs \<Longrightarrow> c_read_full n c = (Ok xs, c\<lparr>sk_in := ys\<rparr>)"
  unfolding c_read_full_def by (intro smap_err_simps sk_read_full_append)

lemma c_write_ok [io_simps]:
  "sk_wres c = [] \<Longrightarrow> c_write bs c = (Ok (), c\<lparr>sk_out := sk_out c @ bs\<rparr>)"
  by (simp add: c_write_def io_simps)

lemma handshake_ok:
  assumes "sk_in c = Socks5Version # n # methods @ rest" and "unat n = length methods"
  shows "readHandShake c = (Ok methods, c\<lparr>sk_in := rest, cn_version := Socks5Version\<rparr>)"
  using assms by (simp add: readHandShake_def io_simps)

lemma read_request_ok:
  assumes "sk_in c = cn_version c # cmd # rsv # wire_form a @ rest" and "addr_wf a"
  shows "readRequest c = (Ok (cmd, a), c\<lparr>sk_in := rest\<rparr>)"
proof -
  have "readAndVaildVersion c = (Ok (), c\<lparr>sk_in := cmd # rsv # wire_form a @ rest\<rparr>)"
    using assms by (simp add: readAndVaildVersion_def io_simps)
  then show ?thesis
    using addr_read_wire [OF assms(2), of "c\<lparr>sk_in := wire_form a @ rest\<rparr>" rest]
    by (simp add: readRequest_def io_simps)
qed

definition reply :: "byte \<Rightarrow> StatusCode \<Rightarrow> AddrPort option \<Rightarrow> bytes" where
  "reply v st addr = [v, status_code st, 0] @
     (case addr of None \<Rightarrow> [IPv4Addr, 0, 0, 0, 0, 0, 0] | Some a \<Rightarrow> wire_form a)"

text \<open>An error is never answered as success: no reply to an error is a reply that grants a request.\<close>

lemma error_status_not_granted: "error_status e \<noteq> StatusGranted"
  by (simp add: error_status_def Let_def)

lemma error_reply_not_granted: "reply v (error_status e) a \<noteq> reply v StatusGranted b"
  using error_status_not_granted [of e] by (simp add: reply_def status_code_inj del: status_code.simps)

lemma send_response_ok:
  assumes "sk_wres c = []" and "case addr of None \<Rightarrow> True | Some a \<Rightarrow> addr_wf a"
  shows "sendResponse st addr c = (Ok (), c\<lparr>sk_out := sk_out c @ reply (cn_version c) st addr\<rparr>)"
proof -
  have "addr_marshal_binary addr = Ok (case addr of None \<Rightarrow> [IPv4Addr, 0, 0, 0, 0, 0, 0]
      | Some a \<Rightarrow> wire_form a)"
    using assms(2) by (auto simp: addr_marshal_binary_def [of None] marshal_wf split: option.splits)
  then show ?thesis
    using assms(1) by (simp add: sendResponse_def reply_def addr_write_to_def io_simps)
qed

lemma try_auth_no [io_simps]:
  "sk_wres c = [] \<Longrightarrow> tryAuth s NoAuth c = (Ok True, c\<lparr>sk_out := sk_out c @ [Socks5Version, NoAuth]\<rparr>)"
  by (simp add: tryAuth_def io_simps)

lemma try_auth_skip:
  "a \<noteq> NoAuth \<Longrightarrow> a = UserAuth \<longrightarrow> sv_guard s = None \<Longrightarrow> tryAuth s a c = (Ok False, c)"
  by (simp add: tryAuth_def sret_def)

lemma auth_loop_skip:
  "\<forall>a\<in>set auths. a \<noteq> NoAuth \<and> (a = UserAuth \<longrightarrow> sv_guard s = None) \<Longrightarrow>
   auth_loop s (auths @ others) c = auth_loop s others c"
  by (induction auths) (simp_all add: sbind_def try_auth_skip)

text \<open>A client that gets past the method negotiation with \<open>NoAuth\<close> and sends a request.\<close>

definition server_dial_ctx :: "Server \<Rightarrow> dial_ctx" where
  "server_dial_ctx s = (if sv_timeout s > 0 then WithTimeout (sv_timeout s) else WithCancel)"

definition requests :: "bytes \<Rightarrow> byte \<Rightarrow> AddrPort \<Rightarrow> bytes" where
  "requests methods cmd a =
     Socks5Version # len_byte (length methods) # methods @
     Socks5Version # cmd # 0 # wire_form a"

text \<open>The methods before the first \<open>NoAuth\<close> are all ones that the server passes over.\<close>

definition anonymous_offer :: "Server \<Rightarrow> bytes \<Rightarrow> bool" where
  "anonymous_offer s methods \<longleftrightarrow>
     length methods < 256 \<and>
     (\<exists>pre post. methods = pre @ NoAuth # post \<and>
        (\<forall>a\<in>set pre. a \<noteq> NoAuth \<and> (a = UserAuth \<longrightarrow> sv_guard s = None)))"

lemma auth_loop_anonymous:
  assumes "anonymous_offer s methods" and "sk_wres c = []"
  shows "auth_loop s methods c = (Ok True, c\<lparr>sk_out := sk_out c @ [Socks5Version, NoAuth]\<rparr>)"
proof -
  obtain pre post where m: "methods = pre @ NoAuth # post"
    and "\<forall>a\<in>set pre. a \<noteq> NoAuth \<and> (a = UserAuth \<longrightarrow> sv_guard s = None)"
    using assms(1) by (auto simp: anonymous_offer_def)
  then show ?thesis
    using assms(2) by (simp add: auth_loop_skip io_simps)
qed

lemma handle_anonymous:
  assumes "anonymous_offer s methods" and "addr_wf a" and "sv_ctx s \<noteq> None"
    and "sk_in k = requests methods cmd a @ rest" and "sk_wres k = []"
  shows "Handle s up k =
    (let c = (new_conn k)\<lparr>cn_version := Socks5Version,
                sk_out := sk_out k @ [Socks5Version, NoAuth], sk_in := rest\<rparr>
     in if cmd = CmdDialTCP then dial_request s up (server_dial_ctx s) a c
        else if cmd = CmdBindTCP then bind_request s up (server_dial_ctx s) a c
        else sendResponse StatusCommandUnsupported None c)"
proof -
  let ?req = "Socks5Version # cmd # 0 # wire_form a @ rest"
  let ?c = "(new_conn k)\<lparr>sk_in := ?req, cn_version := Socks5Version\<rparr>"
  have "readHandShake (new_conn k) = (Ok methods, ?c)"
  proof (rule handshake_ok)
    show "unat (len_byte (length methods)) = length methods"
      using assms(1) by (simp add: anonymous_offer_def)
    show "sk_in (new_conn k) = Socks5Version # len_byte (length methods) # methods @ ?req"
      using assms(4) by (simp add: new_conn_def requests_def)
  qed
  moreover have "auth_loop s methods ?c = (Ok True, ?c\<lparr>sk_out := sk_out k @ [Socks5Version, NoAuth]\<rparr>)"
    using auth_loop_anonymous [OF assms(1), of ?c] assms(5) by (simp add: new_conn_def)
  moreover have "readRequest (?c\<lparr>sk_out := sk_out k @ [Socks5Version, NoAuth]\<rparr>) =
      (Ok (cmd, a), ?c\<lparr>sk_out := sk_out k @ [Socks5Version, NoAuth], sk_in := rest\<rparr>)"
    by (rule read_request_ok [OF _ assms(2)]) simp
  ultimately show ?thesis
    using assms(3) by (auto simp: Handle_def handle_request_def server_dial_ctx_def io_simps Let_def)
qed

subsection \<open>Operations that leave the log of handler calls alone\<close>

definition keeps_calls :: "'a conn_op \<Rightarrow> bool" where
  "keeps_calls m \<longleftrightarrow> (\<forall>c. cn_calls (snd (m c)) = cn_calls c)"

lemma keeps_sbind [intro]:
  assumes m: "keeps_calls m" and f: "\<And>x. keeps_calls (f x)"
  shows "keeps_calls (sbind m f)"
  unfolding keeps_calls_def
proof
  fix c
  obtain r c' where "m c = (r, c')" by (cases "m c")
  then show "cn_calls (snd (sbind m f c)) = cn_calls c"
    using m [unfolded keeps_calls_def, rule_format, of c] f [unfolded keeps_calls_def]
    by (cases r) (simp_all add: sbind_def)
qed

lemma keeps_basic [intro]:
  "keeps_calls c_read_byte" "keeps_calls (c_read_full n)" "keeps_calls (c_write bs)"
  "keeps_calls (sret x)" "keeps_calls (sfail e)"
  by (simp_all add: keeps_calls_def c_read_byte_def c_read_full_def c_write_def smap_err_def
      sk_read_byte_def sk_read_full_def sk_write_def sret_def sfail_def split: list.split option.split)

lemma keeps_handshake [intro]: "keeps_calls readHandShake"
proof -
  have "keeps_calls (\<lambda>c. let c = c\<lparr>cn_version := v\<rparr> in
      if v \<noteq> Socks5Version then (Err (UnsupportVersionError v), c)
      else sbind c_read_byte (\<lambda>l. c_read_full (unat l)) c)" for v
    using keeps_sbind [OF keeps_basic(1) keeps_basic(2), of unat]
    by (simp add: keeps_calls_def Let_def)
  then show ?thesis unfolding readHandShake_def by (intro keeps_sbind keeps_basic)
qed

lemma keeps_user_auth [intro]: "keeps_calls (user_auth g)"
  unfolding user_auth_def by (auto simp: if_split intro!: keeps_sbind keeps_basic)

lemma keeps_auth_loop [intro]: "keeps_calls (auth_loop s auths)"
proof (induction auths)
  case (Cons a auths)
  have "keeps_calls (tryAuth s a)"
    unfolding tryAuth_def by (auto split: option.split)
  then have "keeps_calls (sbind (tryAuth s a) (\<lambda>ok. if ok then sret True else auth_loop s auths))"
    by (rule keeps_sbind) (simp add: Cons keeps_basic)
  then show ?case by simp
qed auto

text \<open>So a call in the log means that the authentication succeeded.\<close>

lemma calls_after_auth:
  assumes "cn_calls (snd (Handle s up k)) \<noteq> []" and "readHandShake (new_conn k) = (Ok auths, c)"
  obtains c' where "auth_loop s auths c = (Ok True, c')"
proof -
  have c: "cn_calls c = []"
    using keeps_handshake [unfolded keeps_calls_def, rule_format, of "new_conn k"] assms(2)
    by (simp add: new_conn_def)
  obtain r c' where r: "auth_loop s auths c = (r, c')" by (cases "auth_loop s auths c")
  then have "cn_calls c' = []"
    using keeps_auth_loop [of s auths, unfolded keeps_calls_def, rule_format, of c] c by simp
  moreover have "cn_calls (snd (sbind (c_write bs) (\<lambda>_. sfail e) c')) = cn_calls c'" for bs e
    using keeps_sbind [OF keeps_basic(3,5), unfolded keeps_calls_def, rule_format] by simp
  ultimately have "r = Ok True"
    using assms r
    by (cases r; cases "sv_ctx s")
      (auto simp: Handle_def Let_def sbind_simps(1) [where m = readHandShake, OF assms(2)]
        sbind_def new_conn_def split: if_splits)
  then show ?thesis using r that by simp
qed

subsection \<open>Credentials\<close>

lemma c_read_byte_OkD: "c_read_byte c = (Ok b, c') \<Longrightarrow> sk_in c = b # sk_in c'"
  by (auto simp: c_read_byte_def smap_err_Ok_iff sk_read_byte_def split: list.splits)

lemma c_read_full_OkD:
  "c_read_full n c = (Ok bs, c') \<Longrightarrow> sk_in c = bs @ sk_in c' \<and> length bs = n"
  by (auto simp: c_read_full_def smap_err_Ok_iff sk_read_full_def split: if_splits)

definition credentials :: "string \<Rightarrow> string \<Rightarrow> bytes" where
  "credentials u p =
     1 # len_byte (length u) # bytes_of u @ len_byte (length p) # bytes_of p"

lemma user_auth_OkD:
  assumes "user_auth g c = (Ok b, c')"
  shows "\<exists>u p tail. g u p \<and> sk_in c = credentials u p @ tail"
proof -
  obtain l1 id l2 pw c1 c2 c3 c4 c5 where
    rd: "c_read_byte c = (Ok 1, c1)" "c_read_byte c1 = (Ok l1, c2)"
      "c_read_full (unat l1) c2 = (Ok id, c3)" "c_read_byte c3 = (Ok l2, c4)"
      "c_read_full (unat l2) c4 = (Ok pw, c5)" and "g (string_of id) (string_of pw)"
    using assms by (auto simp: user_auth_def sbind_Ok_iff sfail_def split: if_splits)
  then show ?thesis
    using c_read_byte_OkD [OF rd(1)] c_read_byte_OkD [OF rd(2)] c_read_full_OkD [OF rd(3)]
      c_read_byte_OkD [OF rd(4)] c_read_full_OkD [OF rd(5)]
    by (intro exI [of _ "string_of id"] exI [of _ "string_of pw"] exI [of _ "sk_in c5"])
      (auto simp: credentials_def byte_simps)
qed

lemma auth_loop_OkD:
  assumes "auth_loop s auths c = (Ok True, c')" and "NoAuth \<notin> set auths"
  shows "\<exists>g u p tail. sv_guard s = Some g \<and> g u p \<and> sk_in c = credentials u p @ tail"
  using assms
proof (induction auths)
  case Nil
  then show ?case by (simp add: sret_def)
next
  case (Cons a auths)
  show ?case
  proof (cases "a = UserAuth \<and> sv_guard s \<noteq> None")
    case True
    then obtain g where g: "sv_guard s = Some g" by auto
    then obtain b c1 where "user_auth g c = (Ok b, c1)"
      using Cons.prems True by (auto simp: tryAuth_def sbind_Ok_iff socks_consts)
    then show ?thesis using user_auth_OkD g by blast
  next
    case False
    then have "tryAuth s a c = (Ok False, c)"
      using Cons.prems(2) by (intro try_auth_skip) auto
    then show ?thesis using Cons by (simp add: sbind_def)
  qed
qed

section \<open>Properties\<close>

text \<open>Inputs and servers of the witnesses.\<close>

definition a_client :: "bytes \<Rightarrow> sock" where
  "a_client bs = \<lparr>sk_in = bs, sk_end = EOF, sk_out = [], sk_wres = []\<rparr>"

definition an_addr :: AddrPort where
  "an_addr = \<lparr>atype = DomainAddr, adata = bytes_of ''a.b'', aport = 80\<rparr>"

definition a_server :: "(socks_error, sock) outcome \<Rightarrow> (string \<Rightarrow> string \<Rightarrow> bool) option \<Rightarrow> Server" where
  "a_server r g =
     \<lparr>sv_handler = \<lparr>DialTCP = (\<lambda>_ _. r), BindTCP = (\<lambda>_ _. Err ErrUnsupportCommand)\<rparr>,
      sv_guard = g, sv_timeout = 0, sv_ctx = Some Running\<rparr>"

lemma an_addr_wf [simp]: "addr_wf an_addr"
  by (simp add: an_addr_def addr_wf_def addr_types)

lemma offer_no_auth [simp]: "anonymous_offer s [NoAuth]"
  by (auto simp: anonymous_offer_def intro!: exI [of _ "[]"])

lemma offer_zero [simp]: "anonymous_offer s [0]"
  using offer_no_auth by (simp add: NoAuth_def)

lemma a_server_ctx [simp]: "sv_ctx (a_server r g) \<noteq> None"
  by (simp add: a_server_def)

text \<open>C27: A CONNECT request, from the first byte to the last. For every list of offered methods
  whose first usable one is \<open>NoAuth\<close>, every well-formed address and every payload: the server
  dials that address once, answers with the method and the granted reply, forwards everything the
  target sends, and passes the client's bytes to the target unchanged and in order.\<close>

theorem socks_connect_trace:
  assumes "anonymous_offer s methods" and "addr_wf a" and "sv_ctx s \<noteq> None"
    and "sk_in k = requests methods CmdDialTCP a @ payload" and "sk_wres k = []"
    and "DialTCP (sv_handler s) (server_dial_ctx s) a = Ok t" and "sk_wres t = []" and "sk_end t = EOF"
  shows "\<exists>c t'. Handle s up k = (Ok (), c) \<and> cn_calls c = [DialCall (server_dial_ctx s) a] \<and>
    sk_out c = sk_out k @ [Socks5Version, NoAuth] @ reply Socks5Version StatusGranted None @ sk_in t \<and>
    cn_target c = Some t' \<and> sk_out t' = sk_out t @ take up payload"
  using assms(6-8)
  by (simp add: handle_anonymous [OF assms(1-5)] Let_def dial_request_def log_call_def
      or_error_response_def sbind_def send_response_ok assms(5) new_conn_def relay_def sk_copy_ok
      sk_write_ok)

theorem socks_connect_trace_witness:
  "\<exists>c t'. Handle (a_server (Ok (a_client [7, 8, 9])) None) 2
      (a_client (requests [NoAuth] CmdDialTCP an_addr @ [1, 2, 3])) = (Ok (), c) \<and>
    cn_calls c = [DialCall WithCancel an_addr] \<and>
    sk_out c = [5, 0] @ reply 5 StatusGranted None @ [7, 8, 9] \<and>
    cn_target c = Some t' \<and> sk_out t' = [1, 2]"
  using socks_connect_trace [of "a_server (Ok (a_client [7, 8, 9])) None" "[NoAuth]" an_addr
      "a_client (requests [NoAuth] CmdDialTCP an_addr @ [1, 2, 3])" "[1, 2, 3]" "a_client [7, 8, 9]" 2]
  by (simp add: a_client_def a_server_def server_dial_ctx_def socks_consts)

text \<open>No acceptable method. If the client offers neither \<open>NoAuth\<close> nor, on a server with a
  user guard, \<open>UserAuth\<close>, it gets exactly the two bytes 05 FF and \<open>Handle\<close> returns
  \<open>ErrNoAcceptableAuth\<close>; nothing of the request is read and the handler is not called.\<close>

theorem socks_no_acceptable_auth:
  assumes "sk_in k = Socks5Version # n # methods @ rest" and "unat n = length methods"
    and "\<forall>a\<in>set methods. a \<noteq> NoAuth \<and> (a = UserAuth \<longrightarrow> sv_guard s = None)"
    and "sv_ctx s \<noteq> None" and "sk_wres k = []"
  shows "\<exists>c. Handle s up k = (Err ErrNoAcceptableAuth, c) \<and> sk_out c = sk_out k @ [0x05, 0xff] \<and>
    sk_in c = rest \<and> cn_calls c = [] \<and> cn_target c = None"
proof -
  have "readHandShake (new_conn k) = (Ok methods, (new_conn k)\<lparr>sk_in := rest, cn_version := Socks5Version\<rparr>)"
    using assms(1,2) by (intro handshake_ok) (simp_all add: new_conn_def)
  moreover have "auth_loop s methods c = (Ok False, c)" for c
    using auth_loop_skip [OF assms(3), of "[]" c] by (simp add: sret_def)
  ultimately show ?thesis
    using assms(4,5)
    by (auto simp: Handle_def Let_def sbind_def c_write_ok sfail_def new_conn_def socks_consts)
qed

theorem socks_no_acceptable_auth_witness:
  "\<exists>c. Handle (a_server (Err ErrTargetBlocked) None) 0 (a_client [5, 2, 1, 2, 5, 1]) =
      (Err ErrNoAcceptableAuth, c) \<and> sk_out c = [5, 0xff]"
  using socks_no_acceptable_auth [of "a_client [5, 2, 1, 2, 5, 1]" 2 "[1, 2]" "[5, 1]"
      "a_server (Err ErrTargetBlocked) None" 0]
  by (auto simp: a_client_def a_server_def socks_consts)

text \<open>C28: Username and password guard the handler. Whenever a client that does not offer
  \<open>NoAuth\<close> makes the server call its handler, the server has a user guard, and the bytes the
  client sent after its methods are an RFC 1929 request with a name and password that the guard
  accepted.\<close>

theorem socks_user_auth_guards:
  assumes "cn_calls (snd (Handle s up k)) \<noteq> []"
    and "sk_in k = Socks5Version # n # methods @ rest" and "unat n = length methods"
    and "NoAuth \<notin> set methods"
  shows "\<exists>g u p tail. sv_guard s = Some g \<and> g u p \<and> rest = credentials u p @ tail"
proof -
  have hs: "readHandShake (new_conn k) = (Ok methods, (new_conn k)\<lparr>sk_in := rest, cn_version := Socks5Version\<rparr>)"
    using assms(2,3) by (intro handshake_ok) (simp_all add: new_conn_def)
  obtain c' where "auth_loop s methods ((new_conn k)\<lparr>sk_in := rest, cn_version := Socks5Version\<rparr>) =
      (Ok True, c')"
    by (rule calls_after_auth [OF assms(1) hs])
  from auth_loop_OkD [OF this assms(4)] show ?thesis by simp
qed

text \<open>A set user guard does not enforce authentication: whatever guard is set, a client whose
  first offered method is \<open>NoAuth\<close> is served exactly as on a server without one, and the guard is
  not asked.\<close>

theorem socks_no_auth_ignores_guard:
  assumes "sk_in k = Socks5Version # n # NoAuth # rest"
  shows "Handle (s\<lparr>sv_guard := Some g\<rparr>) up k = Handle (s\<lparr>sv_guard := None\<rparr>) up k"
proof -
  have *: "handle_request (s\<lparr>sv_guard := h\<rparr>) up ctx = handle_request s up ctx" for h ctx
  proof -
    have "dial_request (s\<lparr>sv_guard := h\<rparr>) = dial_request s"
      "bind_request (s\<lparr>sv_guard := h\<rparr>) = bind_request s"
      by (simp_all add: fun_eq_iff dial_request_def bind_request_def)
    then show ?thesis by (intro ext) (simp only: handle_request_def)
  qed
  have no: "auth_loop (s\<lparr>sv_guard := h\<rparr>) (NoAuth # as) = auth_loop s (NoAuth # as)" for h as
    by (intro ext) (auto simp: tryAuth_def sbind_def sret_def split: prod.splits outcome.splits)
  have loop: "auth_loop (s\<lparr>sv_guard := Some g\<rparr>) as = auth_loop (s\<lparr>sv_guard := None\<rparr>) as"
    if "readHandShake (new_conn k) = (Ok as, c)" for as c
  proof -
    have "as = take (unat n) (NoAuth # rest)"
      using that assms
      by (auto simp: readHandShake_def new_conn_def sbind_Ok_iff c_read_byte_def c_read_full_def
          smap_err_Ok_iff sk_read_byte_def sk_read_full_def Let_def split: if_splits)
    then show ?thesis using no by (cases "unat n") simp_all
  qed
  show ?thesis
    by (cases "readHandShake (new_conn k)"; cases "fst (readHandShake (new_conn k))")
      (auto simp: Handle_def * Let_def sbind_def loop
        split: option.split outcome.split prod.split)
qed

theorem socks_no_auth_ignores_guard_witness:
  "Handle ((a_server (Ok (a_client [7])) None)\<lparr>sv_guard := Some (\<lambda>_ _. False)\<rparr>) 0
     (a_client (requests [NoAuth] CmdDialTCP an_addr)) =
   Handle ((a_server (Ok (a_client [7])) None)\<lparr>sv_guard := None\<rparr>) 0
     (a_client (requests [NoAuth] CmdDialTCP an_addr))"
  by (rule socks_no_auth_ignores_guard) (simp add: a_client_def requests_def)

theorem socks_user_auth_guards_witness:
  "\<exists>g u p tail. sv_guard (a_server (Ok (a_client [7])) (Some (\<lambda>u p. p = ''x''))) = Some g \<and> g u p \<and>
     credentials ''u'' ''x'' @ tl (tl (tl (requests [NoAuth] CmdDialTCP an_addr))) =
       credentials u p @ tail"
proof (rule socks_user_auth_guards [where n = 1 and methods = "[UserAuth]" and up = 0])
  let ?k = "a_client (Socks5Version # 1 # [UserAuth] @ credentials ''u'' ''x'' @
      tl (tl (tl (requests [NoAuth] CmdDialTCP an_addr))))"
  show "sk_in ?k = Socks5Version # 1 # [UserAuth] @ credentials ''u'' ''x'' @
      tl (tl (tl (requests [NoAuth] CmdDialTCP an_addr)))" by (simp add: a_client_def)
  show "cn_calls (snd (Handle (a_server (Ok (a_client [7])) (Some (\<lambda>u p. p = ''x''))) 0 ?k)) \<noteq> []"
    by code_simp
qed (simp_all add: socks_consts)

text \<open>The server never confirms the choice of username and password. A client that offers
  only \<open>UserAuth\<close> and waits for the method selection, as RFC 1928 requires, receives nothing: the
  server is already reading credentials when nothing has been written. And a client that sends
  its credentials unasked gets the authentication status as the first reply of the session, never
  the selection 05 02.\<close>

theorem socks_user_auth_no_selection:
  assumes "sk_in k = [Socks5Version, 1, UserAuth]" and "sv_guard s = Some g" and "sv_ctx s \<noteq> None"
    and "sk_in k2 = Socks5Version # 1 # UserAuth # credentials u p @ rest" and "sk_out k2 = []"
    and "length u < 256" and "length p < 256" and "sk_wres k2 = []" and "\<not> g u p"
  shows "fst (Handle s up k) = Err (IoErr (sk_end k)) \<and> sk_out (snd (Handle s up k)) = sk_out k \<and>
    fst (Handle s up k2) = Err ErrUnauthorized \<and> sk_out (snd (Handle s up k2)) = [0x01, 0xff]"
proof -
  have "readHandShake (new_conn k) = (Ok [UserAuth], (new_conn k)\<lparr>sk_in := [], cn_version := Socks5Version\<rparr>)"
    using assms(1) by (intro handshake_ok [where n = 1]) (simp_all add: new_conn_def)
  moreover have "readHandShake (new_conn k2) =
      (Ok [UserAuth], (new_conn k2)\<lparr>sk_in := credentials u p @ rest, cn_version := Socks5Version\<rparr>)"
    using assms(4) by (intro handshake_ok [where n = 1]) (simp_all add: new_conn_def)
  moreover have "c_read_full (length u) c = (Ok (bytes_of u), c\<lparr>sk_in := bs\<rparr>)"
    if "sk_in c = bytes_of u @ bs" for c bs
    using that by (rule c_read_full_append) simp
  moreover have "c_read_full (length p) c = (Ok (bytes_of p), c\<lparr>sk_in := bs\<rparr>)"
    if "sk_in c = bytes_of p @ bs" for c bs
    using that by (rule c_read_full_append) simp
  ultimately show ?thesis
    using assms(2,3,5-)
    by (auto simp: Handle_def Let_def sbind_def tryAuth_def user_auth_def c_read_byte_Nil
        c_read_byte_Cons c_write_ok sfail_def sret_def credentials_def new_conn_def socks_consts)
qed

theorem socks_user_auth_no_selection_witness:
  "sk_out (snd (Handle (a_server (Ok (a_client [])) (Some (\<lambda>_ _. False))) 0
     (a_client [Socks5Version, 1, UserAuth]))) = [] \<and>
   sk_out (snd (Handle (a_server (Ok (a_client [])) (Some (\<lambda>_ _. False))) 0
     (a_client (Socks5Version # 1 # UserAuth # credentials ''u'' ''p'' @ [])))) = [0x01, 0xff]"
  using socks_user_auth_no_selection
    [of "a_client [Socks5Version, 1, UserAuth]" "a_server (Ok (a_client [])) (Some (\<lambda>_ _. False))"
        "\<lambda>_ _. False" "a_client (Socks5Version # 1 # UserAuth # credentials ''u'' ''p'' @ [])"
        "''u''" "''p''" "[]" 0]
  by (simp add: a_client_def a_server_def)



end
