(* ===== verification/Socks5_Udp.thy ===== *)
theory Socks5_Udp
  imports Socks5_Server
begin

text \<open>
  The UDP part of the SOCKS5 server: the forwarding of datagrams of \<open>socks5/utils.go\<close> and the code
  after the \<open>break\<close> in the case \<open>CmdForwardUDP\<close> of \<open>Handle\<close>. Nothing reaches that code; it is
  modelled as a function of its own, which says what taking the \<open>break\<close> away would give.
\<close>

section \<open>Datagram sockets\<close>

text \<open>A \<open>net.PacketConn\<close>: its local address, the datagrams it will deliver with their senders and the
  error after them, and the calls of \<open>WriteTo\<close> made on it, each with its address or nil.\<close>

record packet_sock =
  ps_local :: "string option"
  ps_in :: "(bytes \<times> string) list"
  ps_end :: io_error
  ps_out :: "(bytes \<times> string option) list"
  ps_closed :: bool

definition udpBufSize :: nat where "udpBufSize = 65536"

text \<open>The loop of \<open>forwardPacket\<close> on the datagrams that the source delivers; the result of \<open>WriteTo\<close>
  is ignored, the loop ends with the source's error.\<close>

fun forward_loop :: "string option \<Rightarrow> (bytes \<times> string) list \<Rightarrow> packet_sock \<Rightarrow> packet_sock" where
  "forward_loop target [] dst = dst"
| "forward_loop target ((bs, from) # ds) dst =
     forward_loop target ds (dst\<lparr>ps_out := ps_out dst @ [(take udpBufSize bs, target)]\<rparr>)"

definition forwardPacket ::
  "packet_sock \<Rightarrow> packet_sock \<Rightarrow> string option \<Rightarrow> io_error \<times> packet_sock \<times> packet_sock" where
  "forwardPacket dst src target =
     (ps_end src, forward_loop target (ps_in src) dst, src\<lparr>ps_in := []\<rparr>)"

text \<open>\<open>readUntilClosed\<close>: one read of one byte, whose result is dropped. It returns as soon as the client
  sends anything.\<close>

definition readUntilClosed :: "unit conn_op" where
  "readUntilClosed c = (case sk_read_byte c of (_, c') \<Rightarrow> (Ok (), c'))"

section \<open>The code behind the break\<close>

definition listen_ip :: "byte \<Rightarrow> string" where
  "listen_ip t = (if t = IPv4Addr then ''127.0.0.1'' else if t = IPv6Addr then ''::1'' else ''127.0.0.1'')"

text \<open>\<open>bound\<close> is what the handler's \<open>BindUDP\<close> gives and \<open>listen\<close> what \<open>net.ListenUDP\<close> gives for an
  address; \<open>up\<close> and \<open>down\<close> count the datagrams that the two goroutines have passed on when the
  client's connection ends the wait. The result has the two sockets, if they were opened.\<close>

definition udp_request ::
  "nat \<Rightarrow> nat \<Rightarrow> (socks_error, packet_sock) outcome \<Rightarrow> (string \<Rightarrow> packet_sock option) \<Rightarrow> AddrPort \<Rightarrow>
     conn \<Rightarrow> ((socks_error, (packet_sock \<times> packet_sock) option) outcome \<times> conn)" where
  "udp_request up down bound listen addr c =
     (case bound of
        Err e \<Rightarrow> sbind (sendErrorResponse e) (\<lambda>_. sret None) c
      | Panic p \<Rightarrow> (Panic p, c)
      | Hang \<Rightarrow> (Hang, c)
      | Ok remote \<Rightarrow>
          (case listen (listen_ip (atype addr)) of
             None \<Rightarrow> sbind (sendResponse StatusCommandUnsupported None) (\<lambda>_. sret None) c
           | Some lc \<Rightarrow>
               sbind (lift_out (AddrPortFromNetAddr (ps_local lc))) (\<lambda>laddr.
               sbind (sendResponse StatusGranted laddr) (\<lambda>_.
               sbind readUntilClosed (\<lambda>_.
                 sret (Some
                   (forward_loop None (take up (ps_in lc)) (remote\<lparr>ps_in := drop down (ps_in remote)\<rparr>),
                    (forward_loop None (take down (ps_in remote)) (lc\<lparr>ps_in := drop up (ps_in lc)\<rparr>))\<lparr>ps_closed := True\<rparr>))))) c))"

section \<open>What is forwarded\<close>

lemma forward_loop_out:
  "ps_out (forward_loop target ds dst) = ps_out dst @ map (\<lambda>d. (take udpBufSize (fst d), target)) ds"
  by (induction target ds dst rule: forward_loop.induct) simp_all

lemma forward_loop_frame:
  "ps_in (forward_loop target ds dst) = ps_in dst" "ps_closed (forward_loop target ds dst) = ps_closed dst"
  "ps_local (forward_loop target ds dst) = ps_local dst" "ps_end (forward_loop target ds dst) = ps_end dst"
  by (induction target ds dst rule: forward_loop.induct) simp_all

text \<open>\<open>forwardPacket\<close> passes on every datagram that its source delivers before it fails, in order, to
  the target it was given, and reports the source's error.\<close>

theorem forwardPacket_spec:
  "\<exists>dst' src'. forwardPacket dst src target = (ps_end src, dst', src') \<and> ps_in src' = [] \<and>
    ps_out dst' = ps_out dst @ map (\<lambda>d. (take udpBufSize (fst d), target)) (ps_in src) \<and>
    ps_in dst' = ps_in dst"
  by (simp add: forwardPacket_def forward_loop_out forward_loop_frame)

text \<open>The code behind the \<open>break\<close> would relay nothing: both directions write to a nil address.\<close>

theorem udp_request_no_target:
  assumes "udp_request up down (Ok remote) listen addr c = (Ok (Some (r, l)), c')"
    and "ps_out remote = []" and "\<And>ip lc. listen ip = Some lc \<Longrightarrow> ps_out lc = []"
  shows "set (map snd (ps_out r @ ps_out l)) \<subseteq> {None} \<and> ps_closed l"
proof -
  obtain lc where lc: "listen (listen_ip (atype addr)) = Some lc"
    using assms(1) by (auto simp: udp_request_def sbind_def sret_def split: option.splits outcome.splits prod.splits)
  then have "r = forward_loop None (take up (ps_in lc)) (remote\<lparr>ps_in := drop down (ps_in remote)\<rparr>)"
    "l = (forward_loop None (take down (ps_in remote)) (lc\<lparr>ps_in := drop up (ps_in lc)\<rparr>))\<lparr>ps_closed := True\<rparr>"
    using assms(1) by (auto simp: udp_request_def sbind_def sret_def split: outcome.splits prod.splits)
  then show ?thesis using assms(2) assms(3) [OF lc] by (auto simp: forward_loop_out)
qed

end
