(* ===== verification/Conn_Pool.thy ===== *)
theory Conn_Pool
  imports Go_Prelude "HOL-Library.Multiset"
begin

text \<open>
  The connection pool of \<open>connpool.go\<close>: a slice of pointers behind a mutex, each method one
  step. Its contract is that of a multiset of connections with a last-in first-out \<open>TakeOr\<close>.
\<close>

section \<open>The pool and its methods\<close>

record 'c connPool =
  pool_data :: "'c list"

definition pool_new :: "'c connPool" where "pool_new = \<lparr>pool_data = []\<rparr>"

definition pool_len :: "'c connPool \<Rightarrow> nat" where
  "pool_len s = length (pool_data s)"

definition pool_clear :: "'c connPool \<Rightarrow> 'c list \<times> 'c connPool" where
  "pool_clear s = (pool_data s, s\<lparr>pool_data := []\<rparr>)"

definition pool_put :: "'c \<Rightarrow> 'c connPool \<Rightarrow> 'c connPool" where
  "pool_put c s = s\<lparr>pool_data := pool_data s @ [c]\<rparr>"

text \<open>The loop of \<open>remove\<close> from index \<open>i\<close>: the last element takes the place of the first
  occurrence of \<open>c\<close>.\<close>

function remove_loop :: "'c \<Rightarrow> 'c list \<Rightarrow> nat \<Rightarrow> 'c list \<times> bool" where
  "remove_loop c xs i =
     (if length xs \<le> i then (xs, False)
      else if xs ! i = c then
        (butlast (if i \<noteq> length xs - 1 then xs[i := xs ! (length xs - 1)] else xs), True)
      else remove_loop c xs (i + 1))"
  by pat_completeness auto
termination
  by (relation "measure (\<lambda>(c, xs, i). length xs - i)") auto

declare remove_loop.simps [simp del]

definition pool_remove :: "'c \<Rightarrow> 'c connPool \<Rightarrow> 'c connPool \<times> bool" where
  "pool_remove c s = (case remove_loop c (pool_data s) 0 of (xs, ok) \<Rightarrow> (s\<lparr>pool_data := xs\<rparr>, ok))"

definition pool_put_from ::
  "'c \<Rightarrow> 'c connPool \<Rightarrow> 'c connPool \<Rightarrow> ('e, 'c connPool \<times> 'c connPool) outcome" where
  "pool_put_from c dst src =
     (case pool_remove c src of
        (src', ok) \<Rightarrow>
          if \<not> ok then Panic (PanicValue ''wpn: Conn is not in the source pool'')
          else Ok (pool_put c dst, src'))"

text \<open>\<open>TakeOr\<close>; \<open>newer\<close> is what the function argument returns, if there is one.\<close>

definition pool_take_or :: "'c option \<Rightarrow> 'c connPool \<Rightarrow> 'c option \<times> 'c connPool" where
  "pool_take_or newer s =
     (if pool_data s = [] then (newer, s)
      else (Some (last (pool_data s)), s\<lparr>pool_data := butlast (pool_data s)\<rparr>))"

section \<open>The contract\<close>

locale conn_store =
  fixes held :: "'p \<Rightarrow> 'c multiset"
    and put :: "'c \<Rightarrow> 'p \<Rightarrow> 'p"
    and remove :: "'c \<Rightarrow> 'p \<Rightarrow> 'p \<times> bool"
    and take_one :: "'p \<Rightarrow> 'c option \<times> 'p"
  assumes put_held: "held (put c p) = add_mset c (held p)"
    and remove_held: "held (fst (remove c p)) = held p - {#c#}"
    and remove_flag: "snd (remove c p) \<longleftrightarrow> c \<in># held p"
    and take_held: "take_one p = (Some c, p') \<Longrightarrow> held p = add_mset c (held p')"
    and take_None: "take_one p = (None, p') \<Longrightarrow> held p = {#} \<and> p' = p"
begin

definition move :: "'c \<Rightarrow> 'p \<Rightarrow> 'p \<Rightarrow> ('p \<times> 'p) option" where
  "move c dst src = (case remove c src of (src', ok) \<Rightarrow> if ok then Some (put c dst, src') else None)"

lemma move_None: "move c dst src = None \<longleftrightarrow> c \<notin># held src"
  using remove_flag [of c src] by (auto simp: move_def split: prod.splits)

lemma move_conserves:
  "move c dst src = Some (dst', src') \<Longrightarrow> held dst' + held src' = held dst + held src"
  using remove_flag [of c src] remove_held [of c src]
  by (auto simp: move_def put_held split: prod.splits if_splits)

lemma put_remove: "held (fst (remove c (put c p))) = held p"
  by (simp add: remove_held put_held)

lemma take_is_held: "take_one p = (Some c, p') \<Longrightarrow> c \<in># held p"
  using take_held by fastforce

end

lemma mset_swap_out:
  assumes "i < length ys" and "ys ! i = c"
  shows "mset (ys[i := z]) = add_mset z (mset ys) - {#c#}"
proof -
  have "c \<in># mset ys" using assms by auto
  then show ?thesis using assms by (simp add: mset_update)
qed

lemma remove_loop_found:
  assumes "i < length xs" and "xs ! i = c"
  shows "mset (butlast (if i \<noteq> length xs - 1 then xs[i := xs ! (length xs - 1)] else xs)) =
    mset xs - {#c#}"
proof -
  obtain ys z where xs: "xs = ys @ [z]" using assms(1) by (cases xs rule: rev_cases) auto
  show ?thesis
  proof (cases "i = length ys")
    case True
    then show ?thesis using assms xs by simp
  next
    case False
    then have "i < length ys" "ys ! i = c" using assms xs by (auto simp: nth_append)
    then show ?thesis
      using mset_swap_out [of i ys c z] xs False by (simp add: list_update_append butlast_append)
  qed
qed

lemma remove_loop_eq:
  "i \<le> length xs \<Longrightarrow> c \<notin> set (take i xs) \<Longrightarrow>
   snd (remove_loop c xs i) = (c \<in> set xs) \<and> mset (fst (remove_loop c xs i)) = mset xs - {#c#}"
proof (induction c xs i rule: remove_loop.induct)
  case (1 c xs i)
  consider (nil) "length xs = i" | (hit) "i < length xs" "xs ! i = c"
    | (miss) "i < length xs" "xs ! i \<noteq> c"
    using "1.prems"(1) by linarith
  then show ?case
  proof cases
    case nil
    then have "c \<notin> set xs" using "1.prems"(2) by simp
    then show ?thesis using nil by (simp add: remove_loop.simps [of c xs i] diff_single_trivial)
  next
    case hit
    then have "c \<in> set xs" by auto
    then show ?thesis
      using hit remove_loop_found [OF hit] by (simp add: remove_loop.simps [of c xs i])
  next
    case miss
    then have "c \<notin> set (take (i + 1) xs)"
      using "1.prems"(2) by (simp add: take_Suc_conv_app_nth)
    then have "snd (remove_loop c xs (i + 1)) = (c \<in> set xs) \<and>
        mset (fst (remove_loop c xs (i + 1))) = mset xs - {#c#}"
      using "1.IH" miss by simp
    then show ?thesis using miss by (simp add: remove_loop.simps [of c xs i])
  qed
qed

lemma pool_remove_mset: "mset (pool_data (fst (pool_remove c s))) = mset (pool_data s) - {#c#}"
  using remove_loop_eq [of 0 "pool_data s" c]
  by (cases "remove_loop c (pool_data s) 0") (simp add: pool_remove_def)

lemma pool_remove_flag: "snd (pool_remove c s) \<longleftrightarrow> c \<in> set (pool_data s)"
  using remove_loop_eq [of 0 "pool_data s" c]
  by (cases "remove_loop c (pool_data s) 0") (simp add: pool_remove_def)

interpretation pool: conn_store "\<lambda>s. mset (pool_data s)" pool_put pool_remove "pool_take_or None"
proof unfold_locales
  fix c :: 'a and p p' :: "'a connPool"
  show "mset (pool_data (pool_put c p)) = add_mset c (mset (pool_data p))"
    by (simp add: pool_put_def)
  show "pool_take_or None p = (Some c, p') \<Longrightarrow> mset (pool_data p) = add_mset c (mset (pool_data p'))"
    by (cases "pool_data p" rule: rev_cases) (auto simp: pool_take_or_def)
  show "pool_take_or None p = (None, p') \<Longrightarrow> mset (pool_data p) = {#} \<and> p' = p"
    by (auto simp: pool_take_or_def split: if_splits)
qed (simp_all add: pool_remove_mset pool_remove_flag)

lemma pool_put_from_move:
  "pool_put_from c dst src =
     (case pool.move c dst src of
        None \<Rightarrow> Panic (PanicValue ''wpn: Conn is not in the source pool'') | Some ps \<Rightarrow> Ok ps)"
  by (simp add: pool_put_from_def pool.move_def split: prod.split)

section \<open>Properties\<close>


text \<open>\<open>TakeOr\<close> is last in, first out: the connection put last is the next one taken, the pool
  is then as before the put, and the newer function is used exactly on an empty pool.\<close>

theorem conn_pool_lifo:
  "pool_take_or n (pool_put c s) = (Some c, s) \<and>
   (fst (pool_take_or None s) = None \<longleftrightarrow> pool_len s = 0) \<and>
   pool_take_or n (snd (pool_clear s)) = (n, snd (pool_clear s)) \<and>
   fst (pool_clear s) = pool_data s"
  by (auto simp: pool_take_or_def pool_put_def pool_clear_def pool_len_def)

end
