(* ===== verification/Wire_Codec.thy ===== *)
theory Wire_Codec
  imports Go_Io Go_Strings "HOL-Library.Sublist"
begin

text \<open>
  The data on the wire of a \<open>Conn\<close> (\<open>conn.go\<close>): the status byte, the command letters, and
  the framing of packets that \<open>sendPacketData\<close> writes and \<open>handleBinary\<close> reads through a
  \<open>bufio.Reader\<close>. A message reader hands out its bytes in chunks, one per \<open>Read\<close>; how the
  websocket library cuts them is left open.
\<close>

section \<open>Status and commands\<close>

datatype ConnStatus = StatusIdle | StatusPacket | StatusStream | StatusInOper | StatusClosed

fun conn_status_code :: "ConnStatus \<Rightarrow> byte" where
  "conn_status_code StatusIdle = 0x00"
| "conn_status_code StatusPacket = 0x01"
| "conn_status_code StatusStream = 0x02"
| "conn_status_code StatusInOper = 0xfe"
| "conn_status_code StatusClosed = 0xff"

definition cmdClose :: char where "cmdClose = CHR ''X''"
definition cmdOpenPacket :: char where "cmdOpenPacket = CHR ''P''"
definition cmdOpenStream :: char where "cmdOpenStream = CHR ''S''"
definition cmdReply :: char where "cmdReply = CHR ''R''"
definition cmdError :: char where "cmdError = CHR ''E''"
definition cmdTrue :: char where "cmdTrue = CHR ''T''"
definition cmdFalse :: char where "cmdFalse = CHR ''F''"

lemmas cmd_defs =
  cmdClose_def cmdOpenPacket_def cmdOpenStream_def cmdReply_def cmdError_def cmdTrue_def cmdFalse_def

definition open_cmd :: "char \<Rightarrow> string \<Rightarrow> string \<Rightarrow> string" where
  "open_cmd k protocol target = k # protocol @ '';'' @ target"

record stringAddr =
  sa_network :: string
  sa_addr :: string

definition split_addr :: "string \<Rightarrow> stringAddr" where
  "split_addr msg = (case split_str msg (CHR '';'') of (l, r) \<Rightarrow> \<lparr>sa_network = l, sa_addr = r\<rparr>)"

section \<open>Packets\<close>

definition packet_frame :: "stringAddr \<Rightarrow> bytes \<Rightarrow> bytes" where
  "packet_frame a data =
     len_byte (length (sa_network a)) # bytes_of (sa_network a) @
     len_byte (length (sa_addr a)) # bytes_of (sa_addr a) @ data"

text \<open>A message reader: the chunks to come and the error after them. \<open>rd_read n\<close> is one call of
  \<open>Read\<close> with a buffer of \<open>n\<close> bytes; empty chunks are passed over.\<close>

record reader =
  rd_chunks :: "bytes list"
  rd_end :: io_error

definition rd_read :: "nat \<Rightarrow> reader \<Rightarrow> (io_error, bytes) outcome \<times> reader" where
  "rd_read n r =
     (case dropWhile (\<lambda>c. c = []) (rd_chunks r) of
        [] \<Rightarrow> (Err (rd_end r), r\<lparr>rd_chunks := []\<rparr>)
      | c # cs \<Rightarrow> (Ok (take n c), r\<lparr>rd_chunks := drop n c # cs\<rparr>))"

text \<open>\<open>bufio.Reader\<close>, with its default buffer size.\<close>

definition bufSize :: nat where "bufSize = 4096"
definition IPPacketMaxSize :: nat where "IPPacketMaxSize = 65536"

record bufreader = reader +
  br_buf :: bytes

definition br_new :: "reader \<Rightarrow> bufreader" where
  "br_new r = \<lparr>rd_chunks = rd_chunks r, rd_end = rd_end r, br_buf = []\<rparr>"

definition br_under :: "nat \<Rightarrow> bufreader \<Rightarrow> (io_error, bytes) outcome \<times> bufreader" where
  "br_under n b =
     (case rd_read n \<lparr>rd_chunks = rd_chunks b, rd_end = rd_end b\<rparr> of
        (x, r) \<Rightarrow> (x, b\<lparr>rd_chunks := rd_chunks r\<rparr>))"

definition br_fill :: "bufreader \<Rightarrow> (io_error, unit) outcome \<times> bufreader" where
  "br_fill b =
     (if br_buf b \<noteq> [] then (Ok (), b)
      else sbind (br_under bufSize) (\<lambda>bs b. (Ok (), b\<lparr>br_buf := bs\<rparr>)) b)"

definition br_read_byte :: "bufreader \<Rightarrow> (io_error, byte) outcome \<times> bufreader" where
  "br_read_byte = sbind br_fill (\<lambda>_ b. (Ok (hd (br_buf b)), b\<lparr>br_buf := tl (br_buf b)\<rparr>))"

text \<open>\<open>Read\<close> takes what is buffered; on an empty buffer it makes one underlying \<open>Read\<close>, into the
  caller's buffer if that is at least as large as its own.\<close>

definition br_read :: "nat \<Rightarrow> bufreader \<Rightarrow> (io_error, bytes) outcome \<times> bufreader" where
  "br_read n b =
     (if n = 0 then (Ok [], b)
      else if br_buf b = [] \<and> bufSize \<le> n then br_under n b
      else sbind br_fill (\<lambda>_ b. (Ok (take n (br_buf b)), b\<lparr>br_buf := drop n (br_buf b)\<rparr>)) b)"

text \<open>\<open>io.ReadFull\<close>: at most \<open>fuel\<close> reads; \<open>n\<close> of them are enough for \<open>n\<close> bytes.\<close>

fun br_full_loop ::
  "nat \<Rightarrow> nat \<Rightarrow> bytes \<Rightarrow> bufreader \<Rightarrow> (io_error, bytes) outcome \<times> bufreader" where
  "br_full_loop 0 n acc b = (if n = 0 then (Ok acc, b) else (Hang, b))"
| "br_full_loop (Suc fuel) n acc b =
     (if n = 0 then (Ok acc, b)
      else (case br_read n b of
              (Ok bs, b') \<Rightarrow> br_full_loop fuel (n - length bs) (acc @ bs) b'
            | (Err e, b') \<Rightarrow> (Err (if acc \<noteq> [] \<and> e = EOF then UnexpectedEOF else e), b')
            | (Panic p, b') \<Rightarrow> (Panic p, b')
            | (Hang, b') \<Rightarrow> (Hang, b')))"

definition br_read_full :: "nat \<Rightarrow> bufreader \<Rightarrow> (io_error, bytes) outcome \<times> bufreader" where
  "br_read_full n = br_full_loop n n []"

record packetDataT =
  pk_addr :: stringAddr
  pk_buf :: bytes
  pk_err :: "io_error option"

definition read_field :: "bufreader \<Rightarrow> (io_error, string) outcome \<times> bufreader" where
  "read_field =
     sbind br_read_byte (\<lambda>l. sbind (br_read_full (unat l)) (\<lambda>buf. sret (string_of buf)))"

definition read_packet :: "reader \<Rightarrow> (io_error, packetDataT) outcome" where
  "read_packet r = fst (
     sbind read_field (\<lambda>network.
     sbind read_field (\<lambda>addr b.
       case br_read IPPacketMaxSize b of
         (Err e, b) \<Rightarrow>
           (Ok \<lparr>pk_addr = \<lparr>sa_network = network, sa_addr = addr\<rparr>, pk_buf = [],
                pk_err = (if e = EOF then None else Some e)\<rparr>, b)
       | (Ok bs, b) \<Rightarrow>
           (Ok \<lparr>pk_addr = \<lparr>sa_network = network, sa_addr = addr\<rparr>, pk_buf = bs, pk_err = None\<rparr>, b)
       | (Panic p, b) \<Rightarrow> (Panic p, b)
       | (Hang, b) \<Rightarrow> (Hang, b))) (br_new r))"

section \<open>What the buffered reader delivers\<close>

definition pending :: "bufreader \<Rightarrow> bytes" where
  "pending b = br_buf b @ concat (rd_chunks b)"

lemma concat_dropWhile_Nil: "concat (dropWhile (\<lambda>c. c = []) cs) = concat cs"
  by (induction cs) auto

lemma take_drop_append [simp]: "take n xs @ drop n xs @ ys = xs @ ys"
  by (metis append.assoc append_take_drop_id)

lemma br_under_cases:
  assumes "0 < n" and "br_under n b = (x, b')"
  obtains (eof) "concat (rd_chunks b) = []" "x = Err (rd_end b)" "concat (rd_chunks b') = []"
      "br_buf b' = br_buf b" "rd_end b' = rd_end b"
  | (data) bs where "bs \<noteq> []" "x = Ok bs" "concat (rd_chunks b) = bs @ concat (rd_chunks b')"
      "length bs \<le> n" "br_buf b' = br_buf b" "rd_end b' = rd_end b"
proof (cases "dropWhile (\<lambda>c. c = []) (rd_chunks b)")
  case Nil
  then show ?thesis
    using assms concat_dropWhile_Nil [of "rd_chunks b"]
    by (intro eof) (auto simp: br_under_def rd_read_def simp del: dropWhile_eq_Nil_conv)
next
  case (Cons c cs)
  then have "c \<noteq> []" by (metis (full_types) hd_dropWhile list.distinct(1) list.sel(1))
  then show ?thesis
    using assms Cons concat_dropWhile_Nil [of "rd_chunks b"]
    by (intro data [of "take n c"]) (auto simp: br_under_def rd_read_def)
qed

lemma br_fill_ok:
  assumes "pending b \<noteq> []"
  obtains b' where "br_fill b = (Ok (), b')" "pending b' = pending b" "br_buf b' \<noteq> []"
    "rd_end b' = rd_end b"
proof (cases "br_buf b = []")
  case True
  obtain x b' where u: "br_under bufSize b = (x, b')" by (cases "br_under bufSize b")
  have "0 < bufSize" by (simp add: bufSize_def)
  from this u show ?thesis
  proof (cases rule: br_under_cases)
    case eof
    then show ?thesis using assms True by (simp add: pending_def)
  next
    case (data bs)
    then show ?thesis
      using u True that [of "b'\<lparr>br_buf := bs\<rparr>"] by (simp add: br_fill_def sbind_def pending_def)
  qed
qed (auto intro: that simp: br_fill_def)

lemma br_read_byte_ok:
  assumes "pending b = x # xs"
  obtains b' where "br_read_byte b = (Ok x, b')" "pending b' = xs" "rd_end b' = rd_end b"
proof -
  have "pending b \<noteq> []" using assms by simp
  then obtain b1 where b1: "br_fill b = (Ok (), b1)" "pending b1 = pending b" "br_buf b1 \<noteq> []"
    "rd_end b1 = rd_end b" by (rule br_fill_ok)
  then obtain ys where "br_buf b1 = x # ys" "ys @ concat (rd_chunks b1) = xs"
    using assms by (cases "br_buf b1") (auto simp: pending_def)
  then show ?thesis
    using b1 by (intro that [of "b1\<lparr>br_buf := ys\<rparr>"]) (auto simp: br_read_byte_def sbind_def pending_def)
qed

lemma br_read_ok:
  assumes "pending b \<noteq> []" and "0 < n"
  obtains bs b' where "br_read n b = (Ok bs, b')" "bs \<noteq> []" "length bs \<le> n"
    "pending b = bs @ pending b'" "rd_end b' = rd_end b"
proof (cases "br_buf b = [] \<and> bufSize \<le> n")
  case True
  obtain x b' where u: "br_under n b = (x, b')" by (cases "br_under n b")
  from assms(2) u show ?thesis
  proof (cases rule: br_under_cases)
    case eof
    then show ?thesis using assms(1) True by (simp add: pending_def)
  next
    case (data bs)
    then show ?thesis using u True assms(2) that [of bs b'] by (simp add: br_read_def pending_def)
  qed
next
  case False
  obtain b1 where b1: "br_fill b = (Ok (), b1)" "pending b1 = pending b" "br_buf b1 \<noteq> []"
    "rd_end b1 = rd_end b" by (rule br_fill_ok [OF assms(1)])
  then show ?thesis
    using False assms(2)
    by (intro that [of "take n (br_buf b1)" "b1\<lparr>br_buf := drop n (br_buf b1)\<rparr>"])
      (auto simp: br_read_def sbind_def pending_def)
qed

lemma br_full_loop_ok:
  assumes "pending b = xs @ ys" and "length xs = n" and "n \<le> fuel"
  shows "\<exists>b'. br_full_loop fuel n acc b = (Ok (acc @ xs), b') \<and> pending b' = ys \<and> rd_end b' = rd_end b"
  using assms
proof (induction fuel n acc b arbitrary: xs rule: br_full_loop.induct)
  case (1 n acc b)
  then show ?case by auto
next
  case (2 fuel n acc b)
  show ?case
  proof (cases "n = 0")
    case True
    then show ?thesis using 2 by auto
  next
    case False
    then have "pending b \<noteq> []" using 2 by auto
    then obtain bs b' where r: "br_read n b = (Ok bs, b')" "bs \<noteq> []" "length bs \<le> n"
      "pending b = bs @ pending b'" "rd_end b' = rd_end b"
      using br_read_ok [of b n] False by blast
    have t: "take (length bs) xs = bs" "pending b' = drop (length bs) xs @ ys"
      using "2.prems" r by (auto simp: append_eq_append_conv_if split: if_splits)
    then have "xs = bs @ drop (length bs) xs" by (metis append_take_drop_id)
    moreover note t(2)
    moreover have "length (drop (length bs) xs) = n - length bs" "n - length bs \<le> fuel"
      using "2.prems" r(2) by (cases bs; simp)+
    ultimately obtain b2 where "br_full_loop fuel (n - length bs) (acc @ bs) b' =
        (Ok ((acc @ bs) @ drop (length bs) xs), b2)" "pending b2 = ys" "rd_end b2 = rd_end b"
      using "2.IH" [OF False r(1) [symmetric] refl, of "drop (length bs) xs"] r(5) by metis
    then show ?thesis using r False t(1) \<open>xs = bs @ _\<close> by simp
  qed
qed

lemma read_field_ok:
  assumes "pending b = len_byte (length s) # bytes_of s @ rest" and "length s < 256"
  obtains b' where "read_field b = (Ok s, b')" "pending b' = rest" "rd_end b' = rd_end b"
proof -
  obtain b1 where b1: "br_read_byte b = (Ok (len_byte (length s)), b1)"
    "pending b1 = bytes_of s @ rest" "rd_end b1 = rd_end b"
    by (rule br_read_byte_ok [OF assms(1)])
  then obtain b2 where "br_read_full (length s) b1 = (Ok (bytes_of s), b2)" "pending b2 = rest"
    "rd_end b2 = rd_end b"
    using br_full_loop_ok [OF b1(2), of "length s" "length s" "[]"] by (auto simp: br_read_full_def)
  then show ?thesis
    using that b1 assms(2) by (simp add: read_field_def sbind_def sret_def byte_simps)
qed

subsection \<open>Reads served from the buffer\<close>

lemma br_read_byte_buf: "br_buf b = x # xs \<Longrightarrow> br_read_byte b = (Ok x, b\<lparr>br_buf := xs\<rparr>)"
  by (simp add: br_read_byte_def br_fill_def sbind_def)

lemma br_read_byte_fill:
  "br_fill b = (Ok (), b1) \<Longrightarrow> br_buf b1 \<noteq> [] \<Longrightarrow> br_read_byte b = br_read_byte b1"
  by (simp add: br_read_byte_def sbind_def br_fill_def [of b1])

lemma br_read_full_buf:
  assumes "br_buf b = xs @ ys"
  shows "br_read_full (length xs) b = (Ok xs, b\<lparr>br_buf := ys\<rparr>)"
proof (cases xs)
  case Nil
  then show ?thesis using assms by (simp add: br_read_full_def)
next
  case (Cons x xs')
  then have "br_read (length xs) b = (Ok xs, b\<lparr>br_buf := ys\<rparr>)"
    using assms by (simp add: br_read_def br_fill_def sbind_def)
  moreover have "br_full_loop n 0 acc c = (Ok acc, c)" for n acc c
    by (cases n) simp_all
  ultimately show ?thesis using Cons by (simp add: br_read_full_def)
qed

lemma read_field_buf:
  assumes "br_buf b = len_byte (length s) # bytes_of s @ rest" and "length s < 256"
  shows "read_field b = (Ok s, b\<lparr>br_buf := rest\<rparr>)"
  using br_read_full_buf [of "b\<lparr>br_buf := bytes_of s @ rest\<rparr>" "bytes_of s" rest] assms
  by (simp add: read_field_def sbind_def sret_def br_read_byte_buf byte_simps)

definition header_size :: "stringAddr \<Rightarrow> nat" where
  "header_size a = 2 + length (sa_network a) + length (sa_addr a)"

lemma read_packet_steps:
  "read_field (br_new r) = (Ok n, b1) \<Longrightarrow> read_field b1 = (Ok a, b2) \<Longrightarrow>
   br_read IPPacketMaxSize b2 = (x, b3) \<Longrightarrow>
   read_packet r =
     (case x of
        Ok bs \<Rightarrow> Ok \<lparr>pk_addr = \<lparr>sa_network = n, sa_addr = a\<rparr>, pk_buf = bs, pk_err = None\<rparr>
      | Err e \<Rightarrow> Ok \<lparr>pk_addr = \<lparr>sa_network = n, sa_addr = a\<rparr>, pk_buf = [],
                     pk_err = (if e = EOF then None else Some e)\<rparr>
      | Panic p \<Rightarrow> Panic p
      | Hang \<Rightarrow> Hang)"
  by (simp add: read_packet_def sbind_def split: outcome.split)

lemma read_packet_one_chunk:
  assumes "length (sa_network a) < 256" and "length (sa_addr a) < 256"
  shows "read_packet \<lparr>rd_chunks = [packet_frame a data], rd_end = EOF\<rparr> =
    Ok \<lparr>pk_addr = a, pk_buf = take (4096 - header_size a) data, pk_err = None\<rparr>"
proof -
  let ?h = "len_byte (length (sa_network a)) # bytes_of (sa_network a) @
     len_byte (length (sa_addr a)) # bytes_of (sa_addr a)"
  let ?d = "take (4096 - header_size a) data"
  let ?b = "br_new \<lparr>rd_chunks = [packet_frame a data], rd_end = EOF\<rparr>"
  let ?b1 = "?b\<lparr>rd_chunks := [drop 4096 (packet_frame a data)], br_buf := ?h @ ?d\<rparr>"
  have h: "packet_frame a data = ?h @ data" "length ?h = header_size a"
    by (simp_all add: packet_frame_def header_size_def)
  have "take 4096 (packet_frame a data) = ?h @ ?d"
    using assms by (simp only: h(1) take_append h(2)) (simp add: h(2) header_size_def)
  then have fill: "br_fill ?b = (Ok (), ?b1)"
    by (simp add: br_fill_def br_new_def br_under_def rd_read_def sbind_def bufSize_def packet_frame_def)
  have first: "read_field ?b = read_field ?b1"
  proof -
    have "br_read_byte ?b = br_read_byte ?b1"
      by (rule br_read_byte_fill [OF fill]) simp
    then show ?thesis by (simp add: read_field_def sbind_def)
  qed
  let ?b2 = "?b1\<lparr>br_buf := len_byte (length (sa_addr a)) # bytes_of (sa_addr a) @ ?d\<rparr>"
  have r1: "read_field ?b1 = (Ok (sa_network a), ?b2)"
    using assms(1) by (subst read_field_buf) simp_all
  have r2: "read_field ?b2 = (Ok (sa_addr a), ?b2\<lparr>br_buf := ?d\<rparr>)"
    using assms(2) by (subst read_field_buf) simp_all
  have rd: "br_read IPPacketMaxSize (?b2\<lparr>br_buf := ?d\<rparr>) =
     (if data = [] then Err EOF else Ok ?d,
      if data = [] then ?b2\<lparr>br_buf := [], rd_chunks := []\<rparr> else ?b2\<lparr>br_buf := []\<rparr>)"
    using assms h
    by (auto simp: br_read_def br_fill_def br_under_def rd_read_def br_new_def sbind_def
        IPPacketMaxSize_def bufSize_def header_size_def)
  show ?thesis
    unfolding read_packet_steps [OF trans [OF first r1] r2 rd] by simp
qed

lemma read_packet_chunked:
  assumes "length (sa_network a) < 256" and "length (sa_addr a) < 256"
    and "concat (rd_chunks r) = packet_frame a data" and "rd_end r = EOF"
  shows "\<exists>d. read_packet r = Ok \<lparr>pk_addr = a, pk_buf = d, pk_err = None\<rparr> \<and> prefix d data \<and>
    (d = [] \<longleftrightarrow> data = [])"
proof -
  have p: "pending (br_new r) = len_byte (length (sa_network a)) # bytes_of (sa_network a) @
      len_byte (length (sa_addr a)) # bytes_of (sa_addr a) @ data" "rd_end (br_new r) = EOF"
    using assms(3,4) by (simp_all add: pending_def br_new_def packet_frame_def)
  obtain b1 where b1: "read_field (br_new r) = (Ok (sa_network a), b1)"
    "pending b1 = len_byte (length (sa_addr a)) # bytes_of (sa_addr a) @ data" "rd_end b1 = EOF"
    using read_field_ok [OF p(1) assms(1)] p(2) by metis
  obtain b2 where b2: "read_field b1 = (Ok (sa_addr a), b2)" "pending b2 = data" "rd_end b2 = EOF"
    using read_field_ok [OF b1(2) assms(2)] b1(3) by metis
  show ?thesis
  proof (cases "data = []")
    case True
    obtain x b3 where u: "br_under IPPacketMaxSize b2 = (x, b3)"
      by (cases "br_under IPPacketMaxSize b2")
    have "br_buf b2 = []" "concat (rd_chunks b2) = []" using b2 True by (simp_all add: pending_def)
    moreover have "x = Err EOF"
      using br_under_cases [OF _ u] \<open>concat (rd_chunks b2) = []\<close> b2(3)
      by (auto simp: IPPacketMaxSize_def)
    ultimately have "br_read IPPacketMaxSize b2 = (Err EOF, b3)"
      using u by (simp add: br_read_def IPPacketMaxSize_def bufSize_def)
    then show ?thesis using b1 b2 True by (simp add: read_packet_def sbind_def)
  next
    case False
    then have "pending b2 \<noteq> []" "0 < IPPacketMaxSize" using b2 by (simp_all add: IPPacketMaxSize_def)
    then obtain d b3 where "br_read IPPacketMaxSize b2 = (Ok d, b3)" "d \<noteq> []" "data = d @ pending b3"
      using br_read_ok [of b2 IPPacketMaxSize] b2(2) by metis
    then show ?thesis using b1 b2 by (simp add: read_packet_def sbind_def)
  qed
qed

section \<open>Properties\<close>



text \<open>C26: A datagram in one piece arrives whole exactly as long as the framed message fits the
  4096 bytes that \<open>bufio.NewReader\<close> buffers: what is delivered is the datagram cut off at that
  size, without an error, although the buffer it is read into holds 65536 bytes.\<close>

theorem packet_frame_truncated:
  assumes "length (sa_network a) < 256" and "length (sa_addr a) < 256"
  shows "read_packet \<lparr>rd_chunks = [packet_frame a data], rd_end = EOF\<rparr> =
    Ok \<lparr>pk_addr = a, pk_buf = take (4096 - header_size a) data, pk_err = None\<rparr>"
  using assms by (rule read_packet_one_chunk)

theorem packet_frame_truncated_witness:
  "\<exists>p. read_packet \<lparr>rd_chunks = [packet_frame \<lparr>sa_network = ''udp'', sa_addr = ''1.2.3.4:53''\<rparr>
      (replicate 8000 7)], rd_end = EOF\<rparr> = Ok p \<and> pk_buf p = replicate 4081 7"
  using packet_frame_truncated [of "\<lparr>sa_network = ''udp'', sa_addr = ''1.2.3.4:53''\<rparr>" "replicate 8000 7"]
  by (simp add: header_size_def)

end
