(* ===== verification/Wire_Conn.thy ===== *)
theory Wire_Conn
  imports Wire_Codec
begin

text \<open>
  The connection of \<open>conn.go\<close> and the pipes of \<open>utils.go\<close>: its state, the commands and data
  messages it handles, the reader loop, the goroutines it starts, and the dialling operations cut
  into the atomic sections that the mutex and the channels delimit. Callbacks stored in fields
  (\<open>onResult\<close>, \<open>onCmdErr\<close>) are values naming the closure; the channels that they write to are
  \<open>results\<close> entries under the number of the call. The websocket, the dialer and the listener
  belong to other packages: what writes to the websocket and to streams return is a list of
  results to come, and dialer, listener and the incoming check are fields of \<open>env\<close>.
\<close>

section \<open>Errors\<close>

datatype conn_error =
    ErrIllegalStatus
  | RemoteDialError string
  | StatusError ConnStatus
  | ClosedWithStatus nat
  | ContextCanceled
  | WsError string
  | IoError io_error

fun io_error_text :: "io_error \<Rightarrow> string" where
  "io_error_text EOF = ''EOF''"
| "io_error_text UnexpectedEOF = ''unexpected EOF''"
| "io_error_text (NetErr s) = s"

definition conn_error_text :: "conn_error \<Rightarrow> string" where
  "conn_error_text e =
     (case e of
        ErrIllegalStatus \<Rightarrow> ''Illegal status error''
      | RemoteDialError msg \<Rightarrow> ''wpn: remote dial error: '' @ msg
      | StatusError st \<Rightarrow>
          ''wpn: Conn.status must be StatusIdle, but got '' @ itoa (unat (conn_status_code st))
      | ClosedWithStatus code \<Rightarrow> ''Closed with status = '' @ itoa code
      | ContextCanceled \<Rightarrow> ''context canceled''
      | WsError s \<Rightarrow> s
      | IoError e \<Rightarrow> io_error_text e)"

text \<open>The websocket close codes that the code uses.\<close>

definition StatusNormalClosure :: nat where "StatusNormalClosure = 1000"
definition StatusInvalidFramePayloadData :: nat where "StatusInvalidFramePayloadData = 1007"
definition StatusInternalError :: nat where "StatusInternalError = 1011"

section \<open>State\<close>

text \<open>A stream is a connection to a target that the dialer returned, or one of the in-memory
  pipes between a client \<open>Conn\<close> and its user; closing either end of a pipe fires its
  \<open>AfterClose\<close> channel.\<close>

datatype stream = Target nat | Pipe nat

datatype on_result = OnDial nat | OnIdle nat
datatype on_cmd_err = CmdErrStream nat | CmdErrPacket nat

datatype ws_msg = Text string | Binary bytes

datatype effect =
    EDial string string
  | EListen string string
  | EWrite stream bytes
  | EClose stream
  | EClosePacket nat
  | EClosePipe nat
  | EWsClose nat string
  | EServeStream stream
  | EServePacket nat

record Conn =
  status :: ConnStatus
  locked :: bool
  cause :: "conn_error option"
  cerr :: "conn_error option"
  onResult :: "on_result option"
  onCmdErr :: "on_cmd_err option"
  streamConn :: "stream option"
  packetConn :: "nat option"
  packetDataCh :: "packetDataT list option"
  spawned :: "packetDataT list"
  blocked :: "packetDataT list"
  results :: "nat \<Rightarrow> (bool \<times> string) option"
  next_id :: nat
  ws_out :: "ws_msg list"
  ws_wres :: "conn_error option list"
  ws_cres :: "conn_error option"
  st_wres :: "io_error option list"
  effs :: "effect list"

definition WrapConn :: Conn where
  "WrapConn = \<lparr>status = StatusIdle, locked = False, cause = None, cerr = None, onResult = None,
     onCmdErr = None, streamConn = None, packetConn = None, packetDataCh = None, spawned = [],
     blocked = [], results = (\<lambda>_. None), next_id = 0, ws_out = [], ws_wres = [], ws_cres = None,
     st_wres = [], effs = []\<rparr>"

text \<open>The functions a \<open>Conn\<close> is configured with. A dialer or listener returns an error text, or
  the text of the new connection's local address, or neither (a nil connection without error).\<close>

record env =
  OnCheckIncoming :: "(string \<Rightarrow> string \<Rightarrow> bool) option"
  Dialer :: "string \<Rightarrow> string \<Rightarrow> (string, string option) outcome"
  PacketListener :: "string \<Rightarrow> string \<Rightarrow> (string, string option) outcome"

type_synonym 'a cop = "Conn \<Rightarrow> (conn_error, 'a) outcome \<times> Conn"

definition emit :: "effect \<Rightarrow> Conn \<Rightarrow> Conn" where
  "emit e c = c\<lparr>effs := effs c @ [e]\<rparr>"

definition ws_write :: "ws_msg \<Rightarrow> unit cop" where
  "ws_write m c =
     (case ws_wres c of
        Some e # r \<Rightarrow> (Err e, c\<lparr>ws_wres := r\<rparr>)
      | None # r \<Rightarrow> (Ok (), c\<lparr>ws_wres := r, ws_out := ws_out c @ [m]\<rparr>)
      | [] \<Rightarrow> (Ok (), c\<lparr>ws_out := ws_out c @ [m]\<rparr>))"

definition stream_write :: "stream \<Rightarrow> bytes \<Rightarrow> Conn \<Rightarrow> io_error option \<times> Conn" where
  "stream_write s bs c =
     (case st_wres c of
        Some e # r \<Rightarrow> (Some e, c\<lparr>st_wres := r\<rparr>)
      | None # r \<Rightarrow> (None, emit (EWrite s bs) (c\<lparr>st_wres := r\<rparr>))
      | [] \<Rightarrow> (None, emit (EWrite s bs) c))"

text \<open>\<open>c.cancel\<close>: the first cause stays.\<close>

definition cancel :: "conn_error option \<Rightarrow> Conn \<Rightarrow> Conn" where
  "cancel e c =
     (if cause c = None
      then c\<lparr>cause := Some (case e of None \<Rightarrow> ContextCanceled | Some e \<Rightarrow> e)\<rparr> else c)"

text \<open>A section between \<open>c.lock.Lock()\<close> and \<open>Unlock()\<close>: one step if the mutex is free, waiting
  for ever if its holder never lets go.\<close>

definition with_lock :: "'a cop \<Rightarrow> 'a cop" where
  "with_lock m c = (if locked c then (Hang, c) else m c)"

section \<open>Closing\<close>

definition close_stream :: "Conn \<Rightarrow> Conn" where
  "close_stream c =
     (case streamConn c of None \<Rightarrow> c | Some s \<Rightarrow> emit (EClose s) (c\<lparr>streamConn := None\<rparr>))"

definition close_packet :: "Conn \<Rightarrow> Conn" where
  "close_packet c =
     (case packetConn c of None \<Rightarrow> c | Some i \<Rightarrow> emit (EClosePacket i) (c\<lparr>packetConn := None\<rparr>))"

definition close_conns :: "Conn \<Rightarrow> Conn" where
  "close_conns c = close_packet (close_stream (c\<lparr>status := StatusClosed\<rparr>))"

definition Close :: "unit cop" where
  "Close = with_lock (\<lambda>c.
     if status c = StatusClosed
     then ((case cerr c of None \<Rightarrow> Ok () | Some e \<Rightarrow> Err e), c)
     else ((case ws_cres c of None \<Rightarrow> Ok () | Some e \<Rightarrow> Err e),
           cancel None (emit (EWsClose StatusNormalClosure []) (close_conns c))))"

definition closeWithCode :: "nat \<Rightarrow> conn_error option \<Rightarrow> Conn \<Rightarrow> Conn" where
  "closeWithCode code err c =
     (if status c = StatusClosed then c
      else let c = close_conns c
           in case err of
                Some e \<Rightarrow>
                  cancel (Some e) (emit (EWsClose code (conn_error_text e)) (c\<lparr>cerr := Some e\<rparr>))
              | None \<Rightarrow>
                  if code \<noteq> StatusNormalClosure
                  then cancel (Some (ClosedWithStatus code))
                         (emit (EWsClose code []) (c\<lparr>cerr := Some (ClosedWithStatus code)\<rparr>))
                  else cancel None (emit (EWsClose code []) c))"

definition closeWithErr :: "conn_error \<Rightarrow> Conn \<Rightarrow> Conn" where
  "closeWithErr e = closeWithCode StatusInternalError (Some e)"

definition close_on_err :: "'a cop \<Rightarrow> 'a cop" where
  "close_on_err m c = (case m c of (Err e, c) \<Rightarrow> (Err e, closeWithErr e c) | rc \<Rightarrow> rc)"

definition sendCmd :: "string \<Rightarrow> unit cop" where
  "sendCmd cmd = close_on_err (ws_write (Text cmd))"

section \<open>Commands\<close>

definition handle_close :: "unit cop" where
  "handle_close c = close_on_err (sendCmd [cmdReply]) (close_stream (c\<lparr>status := StatusIdle\<rparr>))"

definition incoming_blocked :: "env \<Rightarrow> string \<Rightarrow> string \<Rightarrow> bool" where
  "incoming_blocked v protocol t =
     (case OnCheckIncoming v of None \<Rightarrow> False | Some f \<Rightarrow> \<not> f protocol t)"

definition reply_true :: "string \<Rightarrow> string" where "reply_true s = [cmdReply, cmdTrue] @ s"
definition reply_false :: "string \<Rightarrow> string" where "reply_false s = [cmdReply, cmdFalse] @ s"

definition handle_open_packet :: "env \<Rightarrow> string \<Rightarrow> unit cop" where
  "handle_open_packet v args c =
     (if status c \<noteq> StatusIdle
      then (Ok (), closeWithCode StatusInvalidFramePayloadData (Some ErrIllegalStatus) c)
      else case split_str args (CHR '';'') of
        (protocol, t) \<Rightarrow>
          if incoming_blocked v protocol t then sendCmd (reply_false ''Incoming request blocked'') c
          else let c = emit (EListen protocol t) c
               in case PacketListener v protocol t of
                    Err e \<Rightarrow> sendCmd (reply_false e) c
                  | Panic p \<Rightarrow> (Panic p, c)
                  | Hang \<Rightarrow> (Hang, c)
                  | Ok None \<Rightarrow> (Panic NilDereference, c\<lparr>status := StatusPacket, packetConn := None\<rparr>)
                  | Ok (Some laddr) \<Rightarrow>
                      sbind (sendCmd (reply_true laddr)) (\<lambda>_ c'. (Ok (), emit (EServePacket (next_id c)) c'))
                        (c\<lparr>status := StatusPacket, packetConn := Some (next_id c), next_id := next_id c + 1\<rparr>))"

definition handle_open_stream :: "env \<Rightarrow> string \<Rightarrow> unit cop" where
  "handle_open_stream v args c =
     (if status c \<noteq> StatusIdle
      then (Ok (), closeWithCode StatusInvalidFramePayloadData (Some ErrIllegalStatus) c)
      else case split_str args (CHR '';'') of
        (protocol, t) \<Rightarrow>
          if incoming_blocked v protocol t then sendCmd (reply_false ''Incoming request blocked'') c
          else let c = emit (EDial protocol t) c
               in case Dialer v protocol t of
                    Err e \<Rightarrow> sendCmd (reply_false e) c
                  | Panic p \<Rightarrow> (Panic p, c)
                  | Hang \<Rightarrow> (Hang, c)
                  | Ok None \<Rightarrow> (Panic NilDereference, c\<lparr>status := StatusStream, streamConn := None\<rparr>)
                  | Ok (Some laddr) \<Rightarrow>
                      sbind (sendCmd (reply_true laddr))
                        (\<lambda>_ c'. (Ok (), emit (EServeStream (Target (next_id c))) c'))
                        (c\<lparr>status := StatusStream, streamConn := Some (Target (next_id c)),
                           next_id := next_id c + 1\<rparr>))"

text \<open>A call of the stored \<open>onResult\<close>: the closure of a dial sends to its channel, the one of
  \<open>closeAndWaitForIdle\<close> sets the status and closes its channel.\<close>

definition fire_result :: "on_result \<Rightarrow> bool \<Rightarrow> string \<Rightarrow> Conn \<Rightarrow> Conn" where
  "fire_result k ok msg c =
     (case k of
        OnDial i \<Rightarrow> c\<lparr>onResult := None, results := (results c)(i \<mapsto> (ok, msg))\<rparr>
      | OnIdle i \<Rightarrow> c\<lparr>onResult := None, status := StatusIdle, results := (results c)(i \<mapsto> (ok, msg))\<rparr>)"

definition handle_reply :: "string \<Rightarrow> unit cop" where
  "handle_reply args c =
     (Ok (),
      case onResult c of
        None \<Rightarrow> c
      | Some k \<Rightarrow> (case args of
                    [] \<Rightarrow> fire_result k False [] c
                  | b # msg \<Rightarrow> fire_result k (b = cmdTrue) msg c))"

text \<open>\<open>close(c.packetDataCh)\<close>, then nil: closing a nil channel panics, and so does every goroutine
  that is blocked sending to the channel.\<close>

definition close_packet_ch :: "unit cop" where
  "close_packet_ch c =
     (case packetDataCh c of
        None \<Rightarrow> (Panic (PanicValue ''close of nil channel''), c)
      | Some q \<Rightarrow> ((if blocked c = [] then Ok () else Panic (PanicValue ''send on closed channel'')),
                   c\<lparr>packetDataCh := None\<rparr>))"

definition handle_error :: "unit cop" where
  "handle_error c =
     (if status c = StatusIdle then (Ok (), c)
      else case onCmdErr c of
        None \<Rightarrow> (Ok (), c)
      | Some (CmdErrStream i) \<Rightarrow> (Ok (), emit (EClose (Pipe i)) (c\<lparr>onCmdErr := None\<rparr>))
      | Some (CmdErrPacket i) \<Rightarrow> close_packet_ch (emit (EClosePipe i) (c\<lparr>onCmdErr := None\<rparr>)))"

definition run_command :: "env \<Rightarrow> string \<Rightarrow> unit cop" where
  "run_command v cmd c =
     (case cmd of
        [] \<Rightarrow> (Panic IndexOutOfRange, c)
      | k # args \<Rightarrow>
          if k = cmdClose then handle_close c
          else if k = cmdOpenPacket then handle_open_packet v args c
          else if k = cmdOpenStream then handle_open_stream v args c
          else if k = cmdReply then handle_reply args c
          else if k = cmdError then handle_error c
          else (Ok (), c))"

definition handleCommand :: "env \<Rightarrow> string \<Rightarrow> unit cop" where
  "handleCommand v cmd = with_lock (run_command v cmd)"

section \<open>Data messages\<close>

text \<open>\<open>io.Copy\<close> from a message to a stream, one write per chunk.\<close>

fun copy_chunks :: "stream \<Rightarrow> bytes list \<Rightarrow> io_error \<Rightarrow> Conn \<Rightarrow> io_error option \<times> Conn" where
  "copy_chunks s [] e c = (if e = EOF then None else Some e, c)"
| "copy_chunks s (b # bs) e c =
     (if b = [] then copy_chunks s bs e c
      else case stream_write s b c of
             (None, c) \<Rightarrow> copy_chunks s bs e c
           | (Some e', c) \<Rightarrow> (Some e', c))"

text \<open>A read error of the payload goes with the packet to the user, and ends \<open>handleBinary\<close> as well.\<close>

definition packet_outcome :: "packetDataT \<Rightarrow> (conn_error, unit) outcome" where
  "packet_outcome d = (case pk_err d of None \<Rightarrow> Ok () | Some e \<Rightarrow> Err (IoError e))"

definition run_binary :: "reader \<Rightarrow> unit cop" where
  "run_binary r c =
     (case status c of
        StatusPacket \<Rightarrow>
          (case read_packet r of
             Ok d \<Rightarrow> (packet_outcome d, c\<lparr>spawned := spawned c @ [d]\<rparr>)
           | Err e \<Rightarrow> (Err (IoError e), c)
           | Panic p \<Rightarrow> (Panic p, c)
           | Hang \<Rightarrow> (Hang, c))
      | StatusStream \<Rightarrow>
          (case streamConn c of
             None \<Rightarrow> (Ok (), c)
           | Some s \<Rightarrow>
               (case copy_chunks s (rd_chunks r) (rd_end r) c of
                  (None, c) \<Rightarrow> (Ok (), c)
                | (Some e, c) \<Rightarrow>
                    sendCmd (cmdError # io_error_text e) (close_stream (c\<lparr>status := StatusIdle\<rparr>))))
      | _ \<Rightarrow> (Ok (), c))"

definition handleBinary :: "reader \<Rightarrow> unit cop" where
  "handleBinary r = with_lock (run_binary r)"

text \<open>The goroutine that \<open>handleBinary\<close> started for a packet: it looks at the channel when it
  runs, and sends, blocks behind three queued packets, or waits for ever on a nil channel.\<close>

definition packetChCap :: nat where "packetChCap = 3"

definition run_sender :: "nat \<Rightarrow> Conn \<Rightarrow> Conn" where
  "run_sender i c =
     (if length (spawned c) \<le> i then c
      else let d = spawned c ! i; c' = c\<lparr>spawned := remove_at i (spawned c)\<rparr>
           in case packetDataCh c of
                None \<Rightarrow> c'
              | Some q \<Rightarrow> if length q < packetChCap then c'\<lparr>packetDataCh := Some (q @ [d])\<rparr>
                          else c'\<lparr>blocked := blocked c @ [d]\<rparr>)"

text \<open>The other case of its \<open>select\<close>: once the connection's context is done, the goroutine may
  return instead, before it has sent or while it is blocked, and its packet is dropped.\<close>

definition sender_done :: "nat \<Rightarrow> Conn \<Rightarrow> Conn" where
  "sender_done i c = (if cause c = None then c else c\<lparr>spawned := remove_at i (spawned c)\<rparr>)"

definition blocked_done :: "nat \<Rightarrow> Conn \<Rightarrow> Conn" where
  "blocked_done i c = (if cause c = None then c else c\<lparr>blocked := remove_at i (blocked c)\<rparr>)"

section \<open>The reader loop\<close>

datatype incoming = InText string | InTextErr conn_error | InBinary reader
datatype ws_end = ReadEOF | CloseNormal | ReadError conn_error

definition handle_msg :: "env \<Rightarrow> incoming \<Rightarrow> unit cop" where
  "handle_msg v m =
     (case m of
        InText s \<Rightarrow> handleCommand v s
      | InTextErr e \<Rightarrow> (\<lambda>c. (Err e, closeWithErr e c))
      | InBinary r \<Rightarrow> handleBinary r)"

fun Handle :: "env \<Rightarrow> incoming list \<Rightarrow> ws_end \<Rightarrow> unit cop" where
  "Handle v [] fin c =
     (case fin of
        ReadEOF \<Rightarrow> (Ok (), cancel None c)
      | CloseNormal \<Rightarrow> (Ok (), cancel None c)
      | ReadError e \<Rightarrow> (Err e, closeWithErr e c))"
| "Handle v (m # ms) fin c = sbind (handle_msg v m) (\<lambda>_. Handle v ms fin) c"

text \<open>The messages handled so far, when the loop is still running.\<close>

fun handle_msgs :: "env \<Rightarrow> incoming list \<Rightarrow> unit cop" where
  "handle_msgs v [] c = (Ok (), c)"
| "handle_msgs v (m # ms) c = sbind (handle_msg v m) (\<lambda>_. handle_msgs v ms) c"

text \<open>The ping goroutine when the context is done or a ping fails, and \<open>Ping\<close> itself.\<close>

definition ping_done :: "Conn \<Rightarrow> Conn" where
  "ping_done c =
     (case cause c of
        None \<Rightarrow> c
      | Some e \<Rightarrow> emit (EWsClose StatusInternalError (conn_error_text e)) (c\<lparr>status := StatusClosed\<rparr>))"

definition Ping :: "conn_error option \<Rightarrow> unit cop" where
  "Ping res = close_on_err (\<lambda>c. (case res of None \<Rightarrow> Ok () | Some e \<Rightarrow> Err e, c))"

text \<open>The ping goroutine that \<open>Handle\<close> starts: at each tick a ping and its result, until a ping fails, the
  context is done or the interval is switched off.\<close>

datatype ping_event = PingTime "conn_error option" | ContextDone

fun keep_alive :: "int \<Rightarrow> ping_event list \<Rightarrow> unit cop" where
  "keep_alive interval [] c = (if interval > 0 then Hang else Ok (), c)"
| "keep_alive interval (e # es) c =
     (if interval > 0 then
        (case e of
           ContextDone \<Rightarrow> (case cause c of None \<Rightarrow> (Hang, c) | Some _ \<Rightarrow> (Ok (), ping_done c))
         | PingTime None \<Rightarrow> keep_alive interval es c
         | PingTime (Some err) \<Rightarrow> (Ok (), closeWithErr err c))
      else (Ok (), c))"

definition conn_Closed :: "Conn \<Rightarrow> bool" where "conn_Closed c \<longleftrightarrow> status c = StatusClosed"
definition conn_Status :: "Conn \<Rightarrow> ConnStatus" where "conn_Status c = status c"

section \<open>Dialling\<close>

text \<open>\<open>closeAndWaitForIdle\<close> up to its \<open>select\<close>; the number names its channel.\<close>

definition close_wait_start :: "nat cop" where
  "close_wait_start =
     sbind (with_lock (\<lambda>c. (Ok (next_id c), c\<lparr>onResult := Some (OnIdle (next_id c)), next_id := next_id c + 1\<rparr>)))
       (\<lambda>i. sbind (sendCmd [cmdClose]) (\<lambda>_ c. (Ok i, c)))"

definition close_wait_end :: "nat \<Rightarrow> unit cop" where
  "close_wait_end i c =
     (case results c i of
        Some _ \<Rightarrow> (Ok (), c)
      | None \<Rightarrow> (case cause c of Some e \<Rightarrow> (Err e, c) | None \<Rightarrow> (Hang, c)))"

text \<open>The first section of \<open>DialContext\<close> and of \<open>ListenPacketContext\<close>.\<close>

definition open_start :: "char \<Rightarrow> string \<Rightarrow> string \<Rightarrow> nat cop" where
  "open_start k protocol t = with_lock (\<lambda>c.
     if status c \<noteq> StatusIdle then (Err (StatusError (status c)), c)
     else sbind (sendCmd (open_cmd k protocol t)) (\<lambda>_ c'. (Ok (next_id c), c'\<lparr>status := StatusInOper\<rparr>))
            (c\<lparr>onResult := Some (OnDial (next_id c)), next_id := next_id c + 1\<rparr>))"

definition dial_start :: "string \<Rightarrow> string \<Rightarrow> nat cop" where
  "dial_start = open_start cmdOpenStream"

definition listen_start :: "string \<Rightarrow> string \<Rightarrow> nat cop" where
  "listen_start protocol t =
     sbind (open_start cmdOpenPacket protocol t) (\<lambda>i c. (Ok i, c\<lparr>packetDataCh := Some []\<rparr>))"

text \<open>The \<open>select\<close>: which of its cases is taken is an argument. In the case of the caller's
  context the lock is taken and held while \<open>closeAndWaitForIdle\<close> takes it again.\<close>

datatype select_case = Replied | CtxDone conn_error | ConnDone

definition open_cancel :: "unit cop \<Rightarrow> conn_error \<Rightarrow> 'a cop" where
  "open_cancel cleanup e = with_lock (\<lambda>c.
     let c = c\<lparr>status := StatusIdle\<rparr>
     in sbind
          (if onResult c = None
           then (\<lambda>c. sbind close_wait_start close_wait_end (c\<lparr>locked := True\<rparr>))
           else (\<lambda>c. (Ok (), c\<lparr>onResult := None\<rparr>)))
          (\<lambda>_. sbind cleanup (\<lambda>_ c. (Err e, c))) c)"

definition open_wait :: "stringAddr cop \<Rightarrow> select_case \<Rightarrow> nat \<Rightarrow> stringAddr cop" where
  "open_wait on_cancel ev i c =
     (case ev of
        Replied \<Rightarrow>
          (case results c i of
             None \<Rightarrow> (Hang, c)
           | Some (ok, msg) \<Rightarrow>
               if ok then (Ok (split_addr msg), c)
               else (Err (RemoteDialError msg), c\<lparr>status := StatusIdle\<rparr>))
      | CtxDone e \<Rightarrow> on_cancel c
      | ConnDone \<Rightarrow> (case cause c of None \<Rightarrow> (Hang, c) | Some e \<Rightarrow> (Err e, c)))"

definition ctx_error :: "select_case \<Rightarrow> conn_error" where
  "ctx_error ev = (case ev of CtxDone e \<Rightarrow> e | _ \<Rightarrow> ContextCanceled)"

definition dial_wait :: "select_case \<Rightarrow> nat \<Rightarrow> stringAddr cop" where
  "dial_wait ev = open_wait (open_cancel (sret ()) (ctx_error ev)) ev"

definition listen_wait :: "select_case \<Rightarrow> nat \<Rightarrow> stringAddr cop" where
  "listen_wait ev = open_wait (open_cancel close_packet_ch (ctx_error ev)) ev"

text \<open>The last section: the pipe is made and the status set.\<close>

record ConnPipe =
  pipe_id :: nat
  localAddr :: stringAddr

definition dial_finish :: "stringAddr \<Rightarrow> ConnPipe cop" where
  "dial_finish a = with_lock (\<lambda>c.
     let i = next_id c
     in (Ok \<lparr>pipe_id = i, localAddr = a\<rparr>,
         emit (EServeStream (Pipe i))
           (c\<lparr>streamConn := Some (Pipe i), onCmdErr := Some (CmdErrStream i), status := StatusStream,
              next_id := i + 1\<rparr>)))"

definition listen_finish :: "stringAddr \<Rightarrow> ConnPipe cop" where
  "listen_finish a = with_lock (\<lambda>c.
     let i = next_id c
     in (Ok \<lparr>pipe_id = i, localAddr = a\<rparr>,
         c\<lparr>onCmdErr := Some (CmdErrPacket i), status := StatusPacket, next_id := i + 1\<rparr>))"

text \<open>A whole call: the messages that the reader loop handles while it waits (\<open>before\<close>), and
  between its \<open>select\<close> and its last section (\<open>between\<close>).\<close>

definition DialContext ::
  "env \<Rightarrow> incoming list \<Rightarrow> select_case \<Rightarrow> incoming list \<Rightarrow> string \<Rightarrow> string \<Rightarrow> ConnPipe cop" where
  "DialContext v before ev between protocol t =
     sbind (dial_start protocol t) (\<lambda>i.
     sbind (handle_msgs v before) (\<lambda>_.
     sbind (dial_wait ev i) (\<lambda>a.
     sbind (handle_msgs v between) (\<lambda>_. dial_finish a))))"

definition ListenPacketContext ::
  "env \<Rightarrow> incoming list \<Rightarrow> select_case \<Rightarrow> incoming list \<Rightarrow> string \<Rightarrow> string \<Rightarrow> ConnPipe cop" where
  "ListenPacketContext v before ev between protocol t =
     sbind (listen_start protocol t) (\<lambda>i.
     sbind (handle_msgs v before) (\<lambda>_.
     sbind (listen_wait ev i) (\<lambda>a.
     sbind (handle_msgs v between) (\<lambda>_. listen_finish a))))"

text \<open>\<open>Dial\<close> and \<open>ListenPacket\<close> use a context that is never done: the \<open>select\<close> ends with a reply or with
  the end of the connection.\<close>

definition conn_Dial :: "env \<Rightarrow> incoming list \<Rightarrow> bool \<Rightarrow> incoming list \<Rightarrow> string \<Rightarrow> string \<Rightarrow> ConnPipe cop" where
  "conn_Dial v before replied between = DialContext v before (if replied then Replied else ConnDone) between"

definition conn_ListenPacket :: "env \<Rightarrow> incoming list \<Rightarrow> bool \<Rightarrow> incoming list \<Rightarrow> string \<Rightarrow> string \<Rightarrow> ConnPipe cop" where
  "conn_ListenPacket v before replied between =
     ListenPacketContext v before (if replied then Replied else ConnDone) between"

section \<open>Serving\<close>

datatype read_error = ReadEnd | ReadClosedPipe | ReadOther string
datatype stream_read = SData bytes | SEnd read_error

text \<open>The loop of \<open>serveStream\<close> over what the stream's reads return; it blocks in the read after
  the last of them.\<close>

fun serve_stream_loop :: "stream_read list \<Rightarrow> nat option cop" where
  "serve_stream_loop [] c = (Hang, c)"
| "serve_stream_loop (SData bs # rs) c =
     sbind (close_on_err (ws_write (Binary bs))) (\<lambda>_. serve_stream_loop rs) c"
| "serve_stream_loop (SEnd e # rs) c =
     (if locked c then (Hang, c)
      else if status c \<noteq> StatusStream then (Ok None, c)
      else case e of
             ReadOther msg \<Rightarrow> sbind (sendCmd (cmdError # msg)) (\<lambda>_. sret None) c
           | _ \<Rightarrow> sbind close_wait_start (\<lambda>i. sret (Some i)) c)"

text \<open>With the number of the channel if the goroutine now waits in \<open>closeAndWaitForIdle\<close>; the
  stream is closed when it returns, then by \<open>serve_stream_end\<close>.\<close>

definition serveStream :: "stream_read list \<Rightarrow> (stream \<times> nat) option cop" where
  "serveStream rs c =
     (if status c \<noteq> StatusStream then (Ok None, c)
      else case streamConn c of
             None \<Rightarrow> (Panic NilDereference, c)
           | Some s \<Rightarrow>
               (case serve_stream_loop rs c of
                  (Hang, c') \<Rightarrow> (Hang, c')
                | (Ok (Some i), c') \<Rightarrow> (Ok (Some (s, i)), c')
                | (Ok None, c') \<Rightarrow> (Ok None, emit (EClose s) c')
                | (Err e, c') \<Rightarrow> (Err e, emit (EClose s) c')
                | (Panic p, c') \<Rightarrow> (Panic p, emit (EClose s) c')))"

definition serve_stream_end :: "stream \<Rightarrow> nat \<Rightarrow> unit cop" where
  "serve_stream_end s i c =
     (case close_wait_end i c of (Hang, c') \<Rightarrow> (Hang, c') | (r, c') \<Rightarrow> (r, emit (EClose s) c'))"

definition sendPacketData :: "bytes \<Rightarrow> stringAddr \<Rightarrow> unit cop" where
  "sendPacketData data a = close_on_err (ws_write (Binary (packet_frame a data)))"

datatype packet_read = PData stringAddr bytes | PEnd string

fun serve_packet_loop :: "packet_read list \<Rightarrow> unit cop" where
  "serve_packet_loop [] c = (Hang, c)"
| "serve_packet_loop (PData a bs # rs) c = sbind (sendPacketData bs a) (\<lambda>_. serve_packet_loop rs) c"
| "serve_packet_loop (PEnd msg # rs) c =
     (if locked c then (Hang, c)
      else if status c \<noteq> StatusPacket then (Ok (), c)
      else sendCmd (cmdError # msg) c)"

definition servePacket :: "packet_read list \<Rightarrow> unit cop" where
  "servePacket rs c =
     (if status c \<noteq> StatusPacket then (Ok (), c)
      else case packetConn c of
             None \<Rightarrow> (Panic NilDereference, c)
           | Some i \<Rightarrow>
               (case serve_packet_loop rs c of
                  (Hang, c') \<Rightarrow> (Hang, c')
                | (r, c') \<Rightarrow> (r, emit (EClosePacket i) c')))"

section \<open>The packet pipe of the client\<close>

record ConnPacketPipe =
  pp_open :: bool
  pp_done :: bool
  pp_localAddr :: stringAddr
  readDeadline :: int
  writeDeadline :: int

definition newConnPacketPipe :: ConnPacketPipe where
  "newConnPacketPipe = \<lparr>pp_open = True, pp_done = False, pp_localAddr = \<lparr>sa_network = [], sa_addr = []\<rparr>,
     readDeadline = 0, writeDeadline = 0\<rparr>"

text \<open>\<open>Close\<close> drops the reference to the connection and fires \<open>AfterClose\<close>.\<close>

definition pp_close :: "ConnPacketPipe \<Rightarrow> ConnPacketPipe" where
  "pp_close p = p\<lparr>pp_open := False, pp_done := True\<rparr>"

definition pp_SetDeadline :: "int \<Rightarrow> ConnPacketPipe \<Rightarrow> ConnPacketPipe" where
  "pp_SetDeadline t p = p\<lparr>readDeadline := t, writeDeadline := t\<rparr>"

definition pp_SetReadDeadline :: "int \<Rightarrow> ConnPacketPipe \<Rightarrow> ConnPacketPipe" where
  "pp_SetReadDeadline t p = p\<lparr>readDeadline := t\<rparr>"

definition pp_SetWriteDeadline :: "int \<Rightarrow> ConnPacketPipe \<Rightarrow> ConnPacketPipe" where
  "pp_SetWriteDeadline t p = p\<lparr>writeDeadline := t\<rparr>"

text \<open>\<open>ReadFrom\<close> with a buffer of \<open>n\<close> bytes; \<open>deadline_hit\<close> says that the context of the read is
  done and its case of the \<open>select\<close> is taken. A read that finds the channel closed under it returns
  \<open>context.Canceled\<close>, as if its context were done; one that starts later waits on a nil channel.\<close>

definition pp_ReadFrom ::
  "nat \<Rightarrow> conn_error option \<Rightarrow> ConnPacketPipe \<Rightarrow> (bytes \<times> stringAddr \<times> io_error option) cop" where
  "pp_ReadFrom n deadline_hit p c =
     (if \<not> pp_open p then (Panic NilDereference, c)
      else case deadline_hit of
             Some e \<Rightarrow> (Err e, c)
           | None \<Rightarrow>
               (case packetDataCh c of
                  None \<Rightarrow> (Hang, c)
                | Some [] \<Rightarrow> (Hang, c)
                | Some (d # q) \<Rightarrow>
                    (Ok (take n (pk_buf d), pk_addr d, pk_err d),
                     (case blocked c of
                        [] \<Rightarrow> c\<lparr>packetDataCh := Some q\<rparr>
                      | b # bs \<Rightarrow> c\<lparr>packetDataCh := Some (q @ [b]), blocked := bs\<rparr>))))"

definition pp_WriteTo :: "bytes \<Rightarrow> stringAddr \<Rightarrow> ConnPacketPipe \<Rightarrow> nat cop" where
  "pp_WriteTo buf a p c =
     (if \<not> pp_open p then (Panic NilDereference, c)
      else sbind (sendPacketData buf a) (\<lambda>_. sret 0) c)"

end
