(* ===== verification/Wire_Step.thy ===== *)
theory Wire_Step
  imports Wire_Conn
begin

text \<open>
  The connection as a state machine. One step is one atomic section of one of its goroutines:
  the reader loop handling a message, a dial in progress, the loop of a served stream, the ping
  goroutine, a packet sender, or a call of the user. What a step of the code would do with the
  lock held by another goroutine is no step. The locale \<open>conn_invariant\<close> states what a property
  of the state has to satisfy to hold in every reachable state; its interpretations are the
  invariants of this theory.
\<close>

section \<open>Steps\<close>

inductive conn_step :: "env \<Rightarrow> Conn \<Rightarrow> Conn \<Rightarrow> bool" for v where
  msg: "handle_msg v m c = (r, c') \<Longrightarrow> conn_step v c c'"
| reader_end: "Handle v [] fin c = (r, c') \<Longrightarrow> conn_step v c c'"
| user_close: "Close c = (r, c') \<Longrightarrow> conn_step v c c'"
| ping: "Ping res c = (r, c') \<Longrightarrow> conn_step v c c'"
| ping_goroutine: "conn_step v c (ping_done c)"
| sender: "conn_step v c (run_sender i c)"
| sender_gives_up: "conn_step v c (sender_done i c)"
| blocked_gives_up: "conn_step v c (blocked_done i c)"
| dial: "dial_start p t c = (ri, c') \<Longrightarrow> conn_step v c c'"
| listen: "listen_start p t c = (ri, c') \<Longrightarrow> conn_step v c c'"
| dial_select: "dial_wait ev i c = (ra, c') \<Longrightarrow> conn_step v c c'"
| listen_select: "listen_wait ev i c = (ra, c') \<Longrightarrow> conn_step v c c'"
| dial_end: "dial_finish a c = (rp, c') \<Longrightarrow> conn_step v c c'"
| listen_end: "listen_finish a c = (rp, c') \<Longrightarrow> conn_step v c c'"
| serve_read: "serve_stream_loop [x] c = (ro, c') \<Longrightarrow> conn_step v c c'"
| serve_end: "conn_step v c (emit (EClose s) c)"
| serve_packet: "serve_packet_loop [px] c = (r, c') \<Longrightarrow> conn_step v c c'"
| serve_packet_end: "conn_step v c (emit (EClosePacket i) c)"
| packet_write: "pp_WriteTo bs a pp c = (rn, c') \<Longrightarrow> conn_step v c c'"
| packet_read: "pp_ReadFrom n dl pp c = (rd, c') \<Longrightarrow> conn_step v c c'"

inductive_cases conn_stepE: "conn_step v c c'"

definition initial :: "Conn \<Rightarrow> bool" where
  "initial c \<longleftrightarrow> (\<exists>w x y. c = WrapConn\<lparr>ws_wres := w, ws_cres := x, st_wres := y\<rparr>)"

definition reachable :: "env \<Rightarrow> Conn \<Rightarrow> bool" where
  "reachable v c \<longleftrightarrow> (\<exists>c0. initial c0 \<and> (conn_step v)\<^sup>*\<^sup>* c0 c)"

lemma reachable_initial [intro]: "initial c \<Longrightarrow> reachable v c"
  by (auto simp: reachable_def)

lemma reachable_step: "reachable v c \<Longrightarrow> conn_step v c c' \<Longrightarrow> reachable v c'"
  by (auto simp: reachable_def intro: rtranclp.rtrancl_into_rtrancl)

lemma reachable_induct [consumes 1, case_names init step]:
  assumes "reachable v c" and "\<And>c. initial c \<Longrightarrow> P c"
    and "\<And>c c'. reachable v c \<Longrightarrow> P c \<Longrightarrow> conn_step v c c' \<Longrightarrow> P c'"
  shows "P c"
proof -
  obtain c0 where c0: "initial c0" and steps: "(conn_step v)\<^sup>*\<^sup>* c0 c"
    using assms(1) by (auto simp: reachable_def)
  from steps have "reachable v c \<and> P c"
  proof induction
    case base
    then show ?case using c0 assms(2) by auto
  next
    case (step c c')
    then show ?case using assms(3) reachable_step by blast
  qed
  then show ?thesis ..
qed

text \<open>A run of the reader loop is a sequence of steps.\<close>

lemma handle_msgs_steps: "handle_msgs v ms c = (r, c') \<Longrightarrow> (conn_step v)\<^sup>*\<^sup>* c c'"
proof (induction ms arbitrary: c)
  case Nil
  then show ?case by simp
next
  case (Cons m ms)
  obtain r1 c1 where m: "handle_msg v m c = (r1, c1)" by (cases "handle_msg v m c")
  then have "conn_step v c c1" by (rule msg)
  moreover have "(conn_step v)\<^sup>*\<^sup>* c1 c'"
    using Cons m by (cases r1) (auto simp: sbind_def)
  ultimately show ?case by (rule converse_rtranclp_into_rtranclp)
qed

lemma Handle_steps: "Handle v ms fin c = (r, c') \<Longrightarrow> (conn_step v)\<^sup>*\<^sup>* c c'"
proof (induction ms arbitrary: c)
  case Nil
  then show ?case using reader_end by blast
next
  case (Cons m ms)
  obtain r1 c1 where m: "handle_msg v m c = (r1, c1)" by (cases "handle_msg v m c")
  then have "conn_step v c c1" by (rule msg)
  moreover have "(conn_step v)\<^sup>*\<^sup>* c1 c'"
    using Cons m by (cases r1) (auto simp: sbind_def)
  ultimately show ?case by (rule converse_rtranclp_into_rtranclp)
qed

section \<open>What an invariant has to satisfy\<close>

text \<open>Effects other than opening a connection or closing the websocket.\<close>

definition quiet :: "effect \<Rightarrow> bool" where
  "quiet e \<longleftrightarrow> (case e of EDial _ _ \<Rightarrow> False | EListen _ _ \<Rightarrow> False | EWsClose _ _ \<Rightarrow> False | _ \<Rightarrow> True)"

locale conn_invariant =
  fixes v :: env and I :: "Conn \<Rightarrow> bool"
  assumes inv_initial: "initial c \<Longrightarrow> I c"
    and inv_ws: "I c \<Longrightarrow> I (c\<lparr>ws_wres := w\<rparr>) \<and> I (c\<lparr>ws_out := q\<rparr>) \<and> I (c\<lparr>st_wres := y\<rparr>)"
    and inv_emit: "I c \<Longrightarrow> quiet e \<Longrightarrow> I (emit e c)"
    and inv_fail: "I c \<Longrightarrow> I (closeWithCode code er c)"
    and inv_close: "I c \<Longrightarrow> I (snd (Close c))"
    and inv_cancel: "I c \<Longrightarrow> I (cancel er c)"
    and inv_ping_done: "I c \<Longrightarrow> I (ping_done c)"
    and inv_idle: "I c \<Longrightarrow> I (c\<lparr>status := StatusIdle\<rparr>) \<and> I (close_stream (c\<lparr>status := StatusIdle\<rparr>))"
    and inv_in_oper: "I c \<Longrightarrow> I (c\<lparr>status := StatusInOper\<rparr>)"
    and inv_packets: "I c \<Longrightarrow> I (c\<lparr>packetDataCh := pq\<rparr>) \<and> I (c\<lparr>spawned := sp\<rparr>) \<and> I (c\<lparr>blocked := bl\<rparr>)"
    and inv_flags: "I c \<Longrightarrow> I (c\<lparr>locked := b\<rparr>) \<and> I (c\<lparr>onResult := None\<rparr>) \<and> I (c\<lparr>onCmdErr := None\<rparr>)"
    and inv_call: "I c \<Longrightarrow> I (c\<lparr>onResult := Some (OnDial (next_id c)), next_id := Suc (next_id c)\<rparr>) \<and>
        I (c\<lparr>onResult := Some (OnIdle (next_id c)), next_id := Suc (next_id c)\<rparr>)"
    and inv_fire: "I c \<Longrightarrow> onResult c = Some k \<Longrightarrow> I (fire_result k ok msg c)"
    and inv_dial: "I c \<Longrightarrow> \<not> incoming_blocked v p t \<Longrightarrow> I (emit (EDial p t) c) \<and> I (emit (EListen p t) c)"
    and inv_stream: "I c \<Longrightarrow> \<not> incoming_blocked v p t \<Longrightarrow> Dialer v p t = Ok (Some l) \<Longrightarrow>
        I (c\<lparr>status := StatusStream, streamConn := Some (Target (next_id c)), next_id := Suc (next_id c)\<rparr>)"
    and inv_nil_stream: "I c \<Longrightarrow> \<not> incoming_blocked v p t \<Longrightarrow> Dialer v p t = Ok None \<Longrightarrow>
        I (c\<lparr>status := StatusStream, streamConn := None\<rparr>)"
    and inv_packet: "I c \<Longrightarrow> \<not> incoming_blocked v p t \<Longrightarrow>
        I (c\<lparr>status := StatusPacket, packetConn := Some (next_id c), next_id := Suc (next_id c)\<rparr>) \<and>
        I (c\<lparr>status := StatusPacket, packetConn := None\<rparr>)"
    and inv_pipe: "I c \<Longrightarrow>
        I (c\<lparr>streamConn := Some (Pipe (next_id c)), onCmdErr := Some (CmdErrStream (next_id c)),
             status := StatusStream, next_id := Suc (next_id c)\<rparr>) \<and>
        I (c\<lparr>onCmdErr := Some (CmdErrPacket (next_id c)), status := StatusPacket, next_id := Suc (next_id c)\<rparr>)"
begin

definition keeps :: "'a cop \<Rightarrow> bool" where
  "keeps m \<longleftrightarrow> (\<forall>c. I c \<longrightarrow> I (snd (m c)))"

lemma keepsI: "(\<And>c. I c \<Longrightarrow> I (snd (m c))) \<Longrightarrow> keeps m"
  by (simp add: keeps_def)

lemma keepsD: "keeps m \<Longrightarrow> I c \<Longrightarrow> m c = (r, c') \<Longrightarrow> I c'"
  by (metis keeps_def snd_conv)

lemma keeps_bind: "keeps m \<Longrightarrow> (\<And>x. keeps (f x)) \<Longrightarrow> keeps (sbind m f)"
  unfolding keeps_def sbind_def by (auto split: prod.split outcome.split)

lemma bind_at: "keeps m \<Longrightarrow> (\<And>x. keeps (f x)) \<Longrightarrow> I c \<Longrightarrow> I (snd (sbind m f c))"
  using keeps_bind keeps_def by blast

lemma keeps_lock: "keeps m \<Longrightarrow> keeps (with_lock m)"
  by (simp add: keeps_def with_lock_def)

lemma keeps_pure: "keeps (\<lambda>c. (r, c))" "keeps (sret x)"
  by (simp_all add: keeps_def sret_def)

lemma keeps_close_on_err: "keeps m \<Longrightarrow> keeps (close_on_err m)"
proof (rule keepsI)
  fix c assume m: "keeps m" "I c"
  obtain r c' where "m c = (r, c')" by (cases "m c")
  with keepsD [OF m this] show "I (snd (close_on_err m c))"
    by (cases r) (simp_all add: close_on_err_def closeWithErr_def inv_fail)
qed

lemma keeps_write: "keeps (ws_write m)"
proof (rule keepsI)
  fix c assume "I c"
  then show "I (snd (ws_write m c))"
    using inv_ws [of "c\<lparr>ws_wres := tl (ws_wres c)\<rparr>"] inv_ws [of c]
    by (auto simp: ws_write_def split: list.split option.split) 
qed

lemma keeps_sendCmd: "keeps (sendCmd cmd)"
  unfolding sendCmd_def by (intro keeps_close_on_err keeps_write)

lemma keeps_start: "keeps close_wait_start"
  unfolding close_wait_start_def
  by (intro keeps_bind keeps_lock keeps_sendCmd keeps_pure keepsI) (simp add: inv_call)

lemma keeps_wait_end: "keeps (close_wait_end i)"
  by (simp add: keeps_def close_wait_end_def split: option.split)

lemma keeps_close_ch: "keeps close_packet_ch"
  by (simp add: keeps_def close_packet_ch_def inv_packets split: option.split)

lemma keeps_handle_open:
  "keeps (handle_open_stream v args)" "keeps (handle_open_packet v args)"
proof -
  obtain p t where pt: "split_str args (CHR '';'') = (p, t)" by (cases "split_str args (CHR '';'')")
  have emits: "keeps (\<lambda>c. (Ok (), emit e c))" if "quiet e" for e
    using that by (simp add: keeps_def inv_emit)
  have q: "quiet (EServeStream s)" "quiet (EServePacket i)" for s i
    by (simp_all add: quiet_def)
  have send: "I c \<Longrightarrow> I (snd (sendCmd cmd c))" for c cmd
    using keeps_sendCmd [unfolded keeps_def] by blast
  show "keeps (handle_open_stream v args)"
  proof (rule keepsI)
    fix c assume c: "I c"
    let ?c = "emit (EDial p t) c"
    have e: "next_id ?c = next_id c" by (simp add: emit_def)
    show "I (snd (handle_open_stream v args c))"
      using c inv_dial [OF c, of p t] inv_stream [of ?c p t] inv_nil_stream [of ?c p t] e
      by (cases "Dialer v p t")
        (auto simp: handle_open_stream_def pt inv_fail Let_def intro!: send bind_at keeps_sendCmd emits q
          split: option.split)
  qed
  show "keeps (handle_open_packet v args)"
  proof (rule keepsI)
    fix c assume c: "I c"
    let ?c = "emit (EListen p t) c"
    have e: "next_id ?c = next_id c" by (simp add: emit_def)
    show "I (snd (handle_open_packet v args c))"
      using c inv_dial [OF c, of p t] inv_packet [of ?c p t] e
      by (cases "PacketListener v p t")
        (auto simp: handle_open_packet_def pt inv_fail Let_def intro!: send bind_at keeps_sendCmd emits q
          split: option.split)
  qed
qed

lemma keeps_cmds: "keeps handle_close" "keeps (handle_reply args)" "keeps handle_error"
proof -
  show "keeps handle_close"
  proof (rule keepsI)
    fix c assume "I c"
    then show "I (snd (handle_close c))"
      unfolding handle_close_def
      using keeps_close_on_err [OF keeps_sendCmd, unfolded keeps_def] inv_idle by blast
  qed
  show "keeps (handle_reply args)"
    by (auto simp: keeps_def handle_reply_def inv_fire split: option.split list.split)
  show "keeps handle_error"
  proof (rule keepsI)
    fix c assume "I c"
    then have q: "I (c\<lparr>onCmdErr := None\<rparr>)" by (simp add: inv_flags)
    have "I (emit (EClose (Pipe i)) (c\<lparr>onCmdErr := None\<rparr>))" "I (emit (EClosePipe i) (c\<lparr>onCmdErr := None\<rparr>))" for i
      using inv_emit [OF q] by (simp_all add: quiet_def)
    then show "I (snd (handle_error c))"
      using \<open>I c\<close> keeps_close_ch [unfolded keeps_def]
      by (auto simp: handle_error_def split: option.split on_cmd_err.split)
  qed
qed

lemma keeps_run_command: "keeps (run_command v cmd)"
proof (rule keepsI)
  fix c assume "I c"
  then show "I (snd (run_command v cmd c))"
    using keeps_cmds [unfolded keeps_def] keeps_handle_open [unfolded keeps_def]
    by (auto simp: run_command_def split: list.split)
qed

lemma copy_chunks_inv: "I c \<Longrightarrow> I (snd (copy_chunks s bs e c))"
proof (induction s bs e c rule: copy_chunks.induct)
  case (2 s b bs e c)
  have w: "I (snd (stream_write s b c))"
    using "2.prems" inv_ws [of c] inv_emit [of "c\<lparr>st_wres := r\<rparr>" "EWrite s b" for r]
      inv_emit [of c "EWrite s b"]
    by (auto simp: stream_write_def quiet_def split: list.split option.split)
  obtain r c' where r: "stream_write s b c = (r, c')" by (cases "stream_write s b c")
  show ?case
    using 2 w r by (cases r) auto
qed simp

lemma keeps_run_binary: "keeps (run_binary r)"
proof (rule keepsI)
  fix c assume c: "I c"
  have fail: "I (snd (sendCmd cmd (close_stream (c'\<lparr>status := StatusIdle\<rparr>))))" if "I c'" for cmd c'
    using keeps_sendCmd [unfolded keeps_def] inv_idle [OF that] by blast
  have copy: "I c'" if "copy_chunks s bs e c = (x, c')" for s bs e x c'
    using copy_chunks_inv [OF c, of s bs e] that by simp
  show "I (snd (run_binary r c))"
    using c by (auto simp: run_binary_def inv_packets intro: fail copy
        split: ConnStatus.split option.split outcome.split prod.split)
qed

lemma keeps_msg: "keeps (handle_msg v m)"
  using keeps_lock [OF keeps_run_command] keeps_lock [OF keeps_run_binary]
  by (cases m)
    (simp_all add: handle_msg_def handleCommand_def handleBinary_def closeWithErr_def inv_fail keeps_def)

lemma keeps_open_start: "keeps (open_start k p t)"
proof -
  have k: "keeps (\<lambda>c'. (Ok n, c'\<lparr>status := StatusInOper\<rparr>))" for n :: nat
    by (simp add: keeps_def inv_in_oper)
  show ?thesis
    unfolding open_start_def
    by (intro keeps_lock keepsI) (auto intro!: bind_at [OF keeps_sendCmd k] simp: inv_call)
qed

lemma keeps_open_cancel: "keeps cleanup \<Longrightarrow> keeps (open_cancel cleanup e)"
  unfolding open_cancel_def
proof (rule keeps_lock, rule keepsI)
  fix c assume cl: "keeps cleanup" and c: "I c"
  have "keeps (\<lambda>c. sbind close_wait_start close_wait_end (c\<lparr>locked := True\<rparr>))"
  proof (rule keepsI)
    fix c assume "I c"
    then have "I (c\<lparr>locked := True\<rparr>)" by (simp add: inv_flags)
    then show "I (snd (sbind close_wait_start close_wait_end (c\<lparr>locked := True\<rparr>)))"
      by (rule bind_at [OF keeps_start keeps_wait_end])
  qed
  moreover have "keeps (\<lambda>c. (Ok (), c\<lparr>onResult := None\<rparr>))" by (simp add: keeps_def inv_flags)
  ultimately have k: "keeps (if onResult (c\<lparr>status := StatusIdle\<rparr>) = None
      then (\<lambda>c. sbind close_wait_start close_wait_end (c\<lparr>locked := True\<rparr>))
      else (\<lambda>c. (Ok (), c\<lparr>onResult := None\<rparr>)))" by simp
  have "keeps (sbind cleanup (\<lambda>_ c. (Err e, c)))"
    by (intro keeps_bind cl keeps_pure)
  then show "I (snd (let c = c\<lparr>status := StatusIdle\<rparr> in sbind
          (if onResult c = None then (\<lambda>c. sbind close_wait_start close_wait_end (c\<lparr>locked := True\<rparr>))
           else (\<lambda>c. (Ok (), c\<lparr>onResult := None\<rparr>)))
          (\<lambda>_. sbind cleanup (\<lambda>_ c. (Err e, c))) c))"
    unfolding Let_def using inv_idle [OF c] by (intro bind_at [OF k]) auto
qed

lemma keeps_open_wait: "keeps m \<Longrightarrow> keeps (open_wait m ev i)"
  by (cases ev)
    (auto simp: keeps_def open_wait_def inv_idle split: option.split)

lemma keeps_finish: "keeps (dial_finish a)" "keeps (listen_finish a)"
  unfolding dial_finish_def listen_finish_def
  by (intro keeps_lock keepsI; simp add: inv_pipe inv_emit quiet_def Let_def)+

lemma keeps_serve: "keeps (serve_stream_loop rs)"
proof (induction rs)
  case Nil
  then show ?case by (simp add: keeps_def)
next
  case (Cons x rs)
  have "keeps (sbind (close_on_err (ws_write (Binary bs))) (\<lambda>_. serve_stream_loop rs))" for bs
    by (intro keeps_bind keeps_close_on_err keeps_write Cons)
  moreover have "keeps (sbind (sendCmd cmd) (\<lambda>_. sret None))"
    "keeps (sbind close_wait_start (\<lambda>i. sret (Some i)))" for cmd
    by (intro keeps_bind keeps_sendCmd keeps_start keeps_pure)+
  ultimately show ?case
    by (cases x) (auto simp: keeps_def split: read_error.split)
qed

lemma keeps_send_packet: "keeps (sendPacketData bs a)"
  unfolding sendPacketData_def by (intro keeps_close_on_err keeps_write)

lemma keeps_serve_packet: "keeps (serve_packet_loop rs)"
proof (induction rs)
  case Nil
  then show ?case by (simp add: keeps_def)
next
  case (Cons x rs)
  have "keeps (sbind (sendPacketData bs a) (\<lambda>_. serve_packet_loop rs))" for bs a
    by (intro keeps_bind keeps_send_packet Cons)
  then show ?case
    using keeps_sendCmd by (cases x) (auto simp: keeps_def)
qed

lemma run_sender_inv: "I c \<Longrightarrow> I (run_sender i c)"
proof -
  assume c: "I c"
  let ?c = "c\<lparr>spawned := remove_at i (spawned c)\<rparr>"
  have "I ?c" using c by (simp add: inv_packets)
  then show ?thesis using c by (auto simp: run_sender_def Let_def inv_packets split: option.split)
qed

lemma keeps_pipe: "keeps (pp_WriteTo bs a pp)" "keeps (pp_ReadFrom n dl pp)"
proof -
  have "keeps (sbind (sendPacketData bs a) (\<lambda>_. sret 0))"
    by (intro keeps_bind keeps_send_packet keeps_pure)
  then show "keeps (pp_WriteTo bs a pp)"
    by (cases "pp_open pp") (simp_all add: keeps_def pp_WriteTo_def)
  have "I (c\<lparr>packetDataCh := q, blocked := bs\<rparr>)" if "I c" for c q bs
    using inv_packets [of "c\<lparr>packetDataCh := q\<rparr>"] inv_packets [OF that] by blast
  then show "keeps (pp_ReadFrom n dl pp)"
    by (auto simp: keeps_def pp_ReadFrom_def inv_packets split: option.split list.split)
qed

theorem step_inv: "conn_step v c c' \<Longrightarrow> I c \<Longrightarrow> I c'"
proof (induction rule: conn_step.induct)
  case (reader_end fin c r c')
  then show ?case
    by (auto simp: closeWithErr_def inv_cancel inv_fail split: ws_end.splits)
next
  case (user_close c r c')
  then show ?case using inv_close [of c] by simp
next
  case (ping res c r c')
  have "keeps (Ping res)" unfolding Ping_def by (intro keeps_close_on_err keepsI) simp
  then show ?case using ping keepsD by blast
next
  case (ping_goroutine c)
  then show ?case by (rule inv_ping_done)
next
  case (listen p t c ri c')
  have "keeps (listen_start p t)"
    unfolding listen_start_def by (intro keeps_bind keeps_open_start keepsI) (simp add: inv_packets)
  then show ?case using listen by (metis keepsD)
next
  case (dial_select ev i c ra c')
  then show ?case
    using keepsD [OF keeps_open_wait [OF keeps_open_cancel [OF keeps_pure(2)]]] by (metis dial_wait_def)
next
  case (listen_select ev i c ra c')
  then show ?case
    using keepsD [OF keeps_open_wait [OF keeps_open_cancel [OF keeps_close_ch]]] by (metis listen_wait_def)
next
  case (msg m c r c')
  then show ?case using keepsD [OF keeps_msg] by metis
next
  case (sender c i)
  then show ?case by (rule run_sender_inv)
next
  case (sender_gives_up c i)
  then show ?case by (simp add: sender_done_def inv_packets)
next
  case (blocked_gives_up c i)
  then show ?case by (simp add: blocked_done_def inv_packets)
next
  case (dial p t c ri c')
  then show ?case using keepsD [OF keeps_open_start] by (metis dial_start_def)
next
  case (dial_end a c rp c')
  then show ?case using keepsD [OF keeps_finish(1)] by metis
next
  case (listen_end a c rp c')
  then show ?case using keepsD [OF keeps_finish(2)] by metis
next
  case (serve_read x c ro c')
  then show ?case using keepsD [OF keeps_serve] by metis
next
  case (serve_end c s)
  then show ?case by (simp add: inv_emit quiet_def)
next
  case (serve_packet px c r c')
  then show ?case using keepsD [OF keeps_serve_packet] by metis
next
  case (serve_packet_end c i)
  then show ?case by (simp add: inv_emit quiet_def)
next
  case (packet_write bs a pp c rn c')
  then show ?case using keepsD [OF keeps_pipe(1)] by metis
next
  case (packet_read n dl pp c rd c')
  then show ?case using keepsD [OF keeps_pipe(2)] by metis
qed

theorem reachable_inv: "reachable v c \<Longrightarrow> I c"
  by (induction rule: reachable_induct) (auto intro: inv_initial step_inv)

lemma steps_inv: "(conn_step v)\<^sup>*\<^sup>* c c' \<Longrightarrow> I c \<Longrightarrow> I c'"
  by (induction rule: rtranclp_induct) (auto intro: step_inv)

lemma Handle_inv: "Handle v ms fin c = (r, c') \<Longrightarrow> I c \<Longrightarrow> I c'"
  using Handle_steps steps_inv by blast

end

section \<open>Invariants\<close>

lemmas conn_ops =
  WrapConn_def initial_def emit_def close_stream_def close_packet_def close_conns_def
  closeWithCode_def cancel_def Close_def with_lock_def ping_done_def fire_result_def quiet_def Let_def

lemma close_frame:
  "results (closeWithCode k er c) = results c" "next_id (closeWithCode k er c) = next_id c"
  "onResult (closeWithCode k er c) = onResult c"
  "status c \<noteq> StatusClosed \<Longrightarrow> cause (closeWithCode k er c) \<noteq> None"
  "results (snd (Close c)) = results c" "next_id (snd (Close c)) = next_id c"
  "onResult (snd (Close c)) = onResult c"
  "\<not> locked c \<Longrightarrow> status c \<noteq> StatusClosed \<Longrightarrow> cause (snd (Close c)) \<noteq> None"
  by (simp_all add: conn_ops split: option.split)

lemma close_idle: "status c = StatusClosed \<Longrightarrow> closeWithCode k er c = c"
  "locked c \<or> status c = StatusClosed \<Longrightarrow> snd (Close c) = c"
  by (auto simp: closeWithCode_def Close_def with_lock_def)

lemma close_conn_frame:
  "status (closeWithCode k er c) = StatusClosed"
  "\<not> locked c \<Longrightarrow> status (snd (Close c)) = StatusClosed"
  "packetConn c = None \<Longrightarrow> packetConn (closeWithCode k er c) = None"
  "packetConn c = None \<Longrightarrow> packetConn (snd (Close c)) = None"
  "status c \<noteq> StatusClosed \<Longrightarrow> streamConn (closeWithCode k er c) = None"
  "\<not> locked c \<Longrightarrow> status c \<noteq> StatusClosed \<Longrightarrow> streamConn (snd (Close c)) = None"
  by (simp_all add: conn_ops split: option.split)

subsection \<open>A client never opens connections for the remote side\<close>

text \<open>\<open>newConn\<close> of \<open>client.go\<close> sets \<open>OnCheckIncoming\<close> to a function that returns false.\<close>

definition client_env :: "env \<Rightarrow> env" where
  "client_env v = v\<lparr>OnCheckIncoming := Some (\<lambda>_ _. False)\<rparr>"

definition opens :: "effect \<Rightarrow> bool" where
  "opens e \<longleftrightarrow> (case e of EDial _ _ \<Rightarrow> True | EListen _ _ \<Rightarrow> True | _ \<Rightarrow> False)"

definition client_safe :: "Conn \<Rightarrow> bool" where
  "client_safe c \<longleftrightarrow> packetConn c = None \<and> filter opens (effs c) = [] \<and>
     (case streamConn c of Some (Target _) \<Rightarrow> False | _ \<Rightarrow> True)"

lemma client_blocks: "incoming_blocked (client_env v) p t"
  by (simp add: incoming_blocked_def client_env_def)

lemma opens_close:
  "filter opens (effs (closeWithCode k er c)) = filter opens (effs c)"
  "filter opens (effs (snd (Close c))) = filter opens (effs c)"
  by (simp_all add: conn_ops opens_def split: option.split)

interpretation client_conn: conn_invariant "client_env v" client_safe for v
proof unfold_locales
  fix c code er
  show "client_safe c \<Longrightarrow> client_safe (closeWithCode code er c)"
    by (cases "status c = StatusClosed")
      (simp_all add: client_safe_def close_idle close_conn_frame opens_close)
next
  fix c
  show "client_safe c \<Longrightarrow> client_safe (snd (Close c))"
    by (cases "locked c \<or> status c = StatusClosed")
      (simp_all add: client_safe_def close_idle close_conn_frame opens_close)
next
  fix c k ok msg
  show "client_safe c \<Longrightarrow> onResult c = Some k \<Longrightarrow> client_safe (fire_result k ok msg c)"
    by (cases k) (simp_all add: client_safe_def fire_result_def)
next
  fix c e
  show "client_safe c \<Longrightarrow> quiet e \<Longrightarrow> client_safe (emit e c)"
    by (cases e) (simp_all add: client_safe_def emit_def quiet_def opens_def)
next
  fix c
  show "client_safe c \<Longrightarrow> client_safe (c\<lparr>status := StatusIdle\<rparr>) \<and>
      client_safe (close_stream (c\<lparr>status := StatusIdle\<rparr>))"
    by (simp add: client_safe_def close_stream_def emit_def opens_def split: option.split)
  show "client_safe c \<Longrightarrow> client_safe (ping_done c)"
    by (cases "cause c") (simp_all add: client_safe_def ping_done_def emit_def opens_def)
qed (simp_all add: client_safe_def initial_def WrapConn_def cancel_def emit_def opens_def client_blocks,
     auto)

subsection \<open>Calls, channels and closing\<close>

definition call_id :: "on_result \<Rightarrow> nat" where
  "call_id k = (case k of OnDial i \<Rightarrow> i | OnIdle i \<Rightarrow> i)"

definition ws_closed :: "effect \<Rightarrow> bool" where
  "ws_closed e \<longleftrightarrow> (case e of EWsClose _ _ \<Rightarrow> True | _ \<Rightarrow> False)"

text \<open>A channel of a call is written at most once, and only closures of calls already made are
  stored; a connection that has closed its websocket or has recorded an error is cancelled.\<close>

definition conn_ok :: "Conn \<Rightarrow> bool" where
  "conn_ok c \<longleftrightarrow>
     (\<forall>i. next_id c \<le> i \<longrightarrow> results c i = None) \<and>
     (\<forall>k. onResult c = Some k \<longrightarrow> call_id k < next_id c \<and> results c (call_id k) = None) \<and>
     (cerr c \<noteq> None \<or> filter ws_closed (effs c) \<noteq> [] \<longrightarrow> cause c \<noteq> None)"

interpretation any_conn: conn_invariant v conn_ok for v
proof unfold_locales
  fix c code er
  show "conn_ok c \<Longrightarrow> conn_ok (closeWithCode code er c)"
    by (cases "status c = StatusClosed") (simp_all add: conn_ok_def close_idle close_frame)
next
  fix c
  show "conn_ok c \<Longrightarrow> conn_ok (snd (Close c))"
    by (cases "locked c \<or> status c = StatusClosed") (simp_all add: conn_ok_def close_idle close_frame)
next
  fix c k ok msg
  show "conn_ok c \<Longrightarrow> onResult c = Some k \<Longrightarrow> conn_ok (fire_result k ok msg c)"
    by (cases k) (auto simp: conn_ok_def fire_result_def call_id_def)
next
  fix c e
  show "conn_ok c \<Longrightarrow> quiet e \<Longrightarrow> conn_ok (emit e c)"
    by (cases e) (simp_all add: conn_ok_def emit_def quiet_def ws_closed_def)
next
  fix c
  assume c: "conn_ok c"
  show "conn_ok (c\<lparr>status := StatusIdle\<rparr>) \<and> conn_ok (close_stream (c\<lparr>status := StatusIdle\<rparr>))"
    using c by (simp add: conn_ok_def close_stream_def emit_def ws_closed_def split: option.split)
  show "conn_ok (c\<lparr>onResult := Some (OnDial (next_id c)), next_id := Suc (next_id c)\<rparr>) \<and>
      conn_ok (c\<lparr>onResult := Some (OnIdle (next_id c)), next_id := Suc (next_id c)\<rparr>)"
    using c by (simp add: conn_ok_def call_id_def)
  show "conn_ok (ping_done c)"
    using c by (cases "cause c") (auto simp: conn_ok_def ping_done_def emit_def ws_closed_def)
qed (simp_all add: conn_ok_def initial_def WrapConn_def cancel_def emit_def ws_closed_def less_SucI
    split: option.split, auto)

subsection \<open>A connection in stream mode has its stream\<close>

definition stream_ok :: "env \<Rightarrow> Conn \<Rightarrow> bool" where
  "stream_ok v c \<longleftrightarrow>
     (status c = StatusStream \<and> streamConn c = None \<longrightarrow> (\<exists>p t. Dialer v p t = Ok None))"

interpretation stream_mode: conn_invariant v "stream_ok v" for v
proof unfold_locales
  fix c code er
  show "stream_ok v c \<Longrightarrow> stream_ok v (closeWithCode code er c)"
    by (simp add: stream_ok_def close_conn_frame)
next
  fix c
  show "stream_ok v c \<Longrightarrow> stream_ok v (snd (Close c))"
    by (cases "locked c") (simp_all add: stream_ok_def close_idle close_conn_frame)
next
  fix c k ok msg
  show "stream_ok v c \<Longrightarrow> onResult c = Some k \<Longrightarrow> stream_ok v (fire_result k ok msg c)"
    by (cases k) (simp_all add: stream_ok_def fire_result_def)
next
  fix c
  show "stream_ok v c \<Longrightarrow> stream_ok v (c\<lparr>status := StatusIdle\<rparr>) \<and>
      stream_ok v (close_stream (c\<lparr>status := StatusIdle\<rparr>))"
    by (simp add: stream_ok_def close_stream_def emit_def split: option.split)
  show "stream_ok v c \<Longrightarrow> stream_ok v (ping_done c)"
    by (cases "cause c") (simp_all add: stream_ok_def ping_done_def emit_def)
qed (simp_all add: stream_ok_def initial_def WrapConn_def cancel_def emit_def, auto)

section \<open>Properties\<close>

text \<open>The empty configuration of the witnesses: every dial is refused.\<close>

definition no_env :: env where
  "no_env = \<lparr>OnCheckIncoming = None, Dialer = (\<lambda>_ _. Err ''refused''),
     PacketListener = (\<lambda>_ _. Err ''refused'')\<rparr>"

lemma initial_WrapConn [simp]: "initial WrapConn"
  unfolding initial_def
  by (intro exI [of _ "[]"] exI [of _ "None :: conn_error option"]) (simp add: WrapConn_def)

text \<open>C18: The remote side of a client can never make it open a connection. In every state that
  any interleaving of incoming messages, dials, closes, pings and served data can reach, a \<open>Conn\<close>
  configured as \<open>newConn\<close> does has called neither a dialer nor a listener, and what it holds as
  its stream is a pipe to its own user.\<close>

theorem client_never_dials:
  assumes "reachable (client_env v) c"
  shows "filter opens (effs c) = [] \<and> packetConn c = None \<and> (\<nexists>i. streamConn c = Some (Target i))"
  using client_conn.reachable_inv [OF assms]
  by (auto simp: client_safe_def split: option.splits stream.splits)

theorem client_never_dials_witness:
  "filter opens (effs (snd (handle_msg (client_env no_env) (InText ''Stcp;10.0.0.1:22'') WrapConn))) = []"
proof -
  have "reachable (client_env no_env)
      (snd (handle_msg (client_env no_env) (InText ''Stcp;10.0.0.1:22'') WrapConn))"
    by (rule reachable_step [OF reachable_initial msg]) (simp_all add: prod_eq_iff)
  then show ?thesis by (rule client_never_dials [THEN conjunct1])
qed



text \<open>C20: In every reachable state the result of a call has been delivered at most once, so the
  send on its channel, made under the lock, cannot block; a stored callback always belongs to a
  call still without a result; and a connection that closed its websocket, for whatever reason,
  has cancelled its context, so nothing keeps waiting for it.\<close>

theorem conn_calls_and_closing:
  assumes "reachable v c"
  shows "{k. onResult c = Some k \<and> results c (call_id k) \<noteq> None} = {} \<and>
    (cause c = None \<longrightarrow> filter ws_closed (effs c) = [] \<and> cerr c = None)"
  using any_conn.reachable_inv [OF assms] by (cases "cause c") (auto simp: conn_ok_def)

theorem conn_calls_and_closing_witness:
  "{k. onResult (snd (dial_start ''tcp'' ''h:1'' WrapConn)) = Some k \<and>
       results (snd (dial_start ''tcp'' ''h:1'' WrapConn)) (call_id k) \<noteq> None} = {}"
proof -
  have "reachable no_env (snd (dial_start ''tcp'' ''h:1'' WrapConn))"
    by (rule reachable_step [OF reachable_initial dial]) (simp_all add: prod_eq_iff)
  then show ?thesis by (rule conn_calls_and_closing [THEN conjunct1])
qed

end
