(* ===== verification/Wire_Session.thy ===== *)
theory Wire_Session
  imports Wire_Step
begin

text \<open>
  Two connections joined by a websocket: what one has written is handed to the other in order.
  An event is one atomic section of one side; a list of events is an interleaving. The theorems
  are complete sessions, one after the other on the same connection, and the interleavings that the
  code does not survive.
\<close>

section \<open>The link\<close>

definition incoming_of :: "ws_msg \<Rightarrow> incoming" where
  "incoming_of m =
     (case m of Text s \<Rightarrow> InText s | Binary bs \<Rightarrow> InBinary \<lparr>rd_chunks = [bs], rd_end = EOF\<rparr>)"

text \<open>\<open>to_sv\<close> and \<open>to_cl\<close> count the messages delivered; \<open>call\<close>, \<open>addr\<close> and \<open>pipe\<close> are the local
  variables of the client's dial, \<open>cl_waits\<close> and \<open>sv_waits\<close> the channel on which the \<open>serveStream\<close>
  of the side waits in \<open>closeAndWaitForIdle\<close>, if it does, \<open>ppipe\<close> is the packet pipe of the client's
  user and \<open>got\<close> what its \<open>ReadFrom\<close> returned, and \<open>outs\<close> are the outcomes of the events.\<close>

record link =
  cl :: Conn
  sv :: Conn
  to_sv :: nat
  to_cl :: nat
  call :: nat
  addr :: stringAddr
  pipe :: "ConnPipe option"
  cl_waits :: "nat option"
  sv_waits :: "nat option"
  ppipe :: "ConnPacketPipe option"
  got :: "(bytes \<times> stringAddr \<times> io_error option) list"
  outs :: "(conn_error, unit) outcome list"

datatype event =
    ToServer | ToClient
  | CDial string string | CSelect select_case | CFinish
  | CRead stream_read | SRead stream_read
  | CDone stream | SDone stream
  | CListen string string | CListenSelect select_case | CListenFinish
  | SPacket packet_read | CSender nat | CReadFrom nat | CWriteTo bytes stringAddr

definition idle_link :: link where
  "idle_link = \<lparr>cl = WrapConn, sv = WrapConn, to_sv = 0, to_cl = 0, call = 0,
     addr = \<lparr>sa_network = [], sa_addr = []\<rparr>, pipe = None, cl_waits = None, sv_waits = None,
     ppipe = None, got = [], outs = []\<rparr>"

definition void :: "(conn_error, 'a) outcome \<Rightarrow> (conn_error, unit) outcome" where
  "void r = (case r of Ok _ \<Rightarrow> Ok () | Err e \<Rightarrow> Err e | Panic p \<Rightarrow> Panic p | Hang \<Rightarrow> Hang)"

text \<open>One round of the loop of \<open>serveStream\<close>; a read of data goes on with the loop. The goroutine
  returns, and closes its stream, when the loop has ended and its \<open>closeAndWaitForIdle\<close> too.\<close>

definition read_round :: "stream_read \<Rightarrow> nat option cop" where
  "read_round x =
     (case x of
        SData bs \<Rightarrow> sbind (close_on_err (ws_write (Binary bs))) (\<lambda>_. sret None)
      | SEnd e \<Rightarrow> serve_stream_loop [SEnd e])"

definition serve_done :: "stream \<Rightarrow> nat option \<Rightarrow> unit cop" where
  "serve_done s w c = (case w of None \<Rightarrow> (Ok (), emit (EClose s) c) | Some i \<Rightarrow> serve_stream_end s i c)"

text \<open>One round of the loop of \<open>servePacket\<close>.\<close>

definition packet_round :: "packet_read \<Rightarrow> unit cop" where
  "packet_round x =
     (case x of PData a bs \<Rightarrow> sendPacketData bs a | PEnd msg \<Rightarrow> serve_packet_loop [PEnd msg])"

text \<open>A reader loop with no message to read waits: nothing happens.\<close>

definition link_step :: "env \<Rightarrow> env \<Rightarrow> link \<Rightarrow> event \<Rightarrow> link" where
  "link_step cv v l ev =
     (case ev of
        ToServer \<Rightarrow>
          (if to_sv l < length (ws_out (cl l)) then
             (case handle_msg v (incoming_of (ws_out (cl l) ! to_sv l)) (sv l) of
                (r, s) \<Rightarrow> l\<lparr>sv := s, to_sv := Suc (to_sv l), outs := outs l @ [r]\<rparr>)
           else l)
      | ToClient \<Rightarrow>
          (if to_cl l < length (ws_out (sv l)) then
             (case handle_msg (client_env cv) (incoming_of (ws_out (sv l) ! to_cl l)) (cl l) of
                (r, c) \<Rightarrow> l\<lparr>cl := c, to_cl := Suc (to_cl l), outs := outs l @ [r]\<rparr>)
           else l)
      | CDial p t \<Rightarrow>
          (case dial_start p t (cl l) of
             (r, c) \<Rightarrow> l\<lparr>cl := c, outs := outs l @ [void r],
                        call := (case r of Ok i \<Rightarrow> i | _ \<Rightarrow> call l)\<rparr>)
      | CSelect k \<Rightarrow>
          (case dial_wait k (call l) (cl l) of
             (r, c) \<Rightarrow> l\<lparr>cl := c, outs := outs l @ [void r],
                        addr := (case r of Ok a \<Rightarrow> a | _ \<Rightarrow> addr l)\<rparr>)
      | CFinish \<Rightarrow>
          (case dial_finish (addr l) (cl l) of
             (r, c) \<Rightarrow> l\<lparr>cl := c, outs := outs l @ [void r],
                        pipe := (case r of Ok p \<Rightarrow> Some p | _ \<Rightarrow> pipe l)\<rparr>)
      | CRead x \<Rightarrow>
          (case read_round x (cl l) of
             (r, c) \<Rightarrow> l\<lparr>cl := c, outs := outs l @ [void r],
                        cl_waits := (case r of Ok w \<Rightarrow> w | _ \<Rightarrow> cl_waits l)\<rparr>)
      | SRead x \<Rightarrow>
          (case read_round x (sv l) of
             (r, s) \<Rightarrow> l\<lparr>sv := s, outs := outs l @ [void r],
                        sv_waits := (case r of Ok w \<Rightarrow> w | _ \<Rightarrow> sv_waits l)\<rparr>)
      | CDone s \<Rightarrow>
          (case serve_done s (cl_waits l) (cl l) of
             (r, c) \<Rightarrow> l\<lparr>cl := c, cl_waits := None, outs := outs l @ [r]\<rparr>)
      | SDone s \<Rightarrow>
          (case serve_done s (sv_waits l) (sv l) of
             (r, c) \<Rightarrow> l\<lparr>sv := c, sv_waits := None, outs := outs l @ [r]\<rparr>)
      | CListen p t \<Rightarrow>
          (case listen_start p t (cl l) of
             (r, c) \<Rightarrow> l\<lparr>cl := c, outs := outs l @ [void r],
                        call := (case r of Ok i \<Rightarrow> i | _ \<Rightarrow> call l)\<rparr>)
      | CListenSelect k \<Rightarrow>
          (case listen_wait k (call l) (cl l) of
             (r, c) \<Rightarrow> l\<lparr>cl := c, outs := outs l @ [void r],
                        addr := (case r of Ok a \<Rightarrow> a | _ \<Rightarrow> addr l)\<rparr>)
      | CListenFinish \<Rightarrow>
          (case listen_finish (addr l) (cl l) of
             (r, c) \<Rightarrow> l\<lparr>cl := c, outs := outs l @ [void r],
                        ppipe := (case r of
                            Ok p \<Rightarrow> Some (newConnPacketPipe\<lparr>pp_localAddr := localAddr p\<rparr>) | _ \<Rightarrow> ppipe l)\<rparr>)
      | SPacket x \<Rightarrow>
          (case packet_round x (sv l) of (r, s) \<Rightarrow> l\<lparr>sv := s, outs := outs l @ [r]\<rparr>)
      | CSender i \<Rightarrow> l\<lparr>cl := run_sender i (cl l), outs := outs l @ [Ok ()]\<rparr>
      | CReadFrom n \<Rightarrow>
          (case ppipe l of
             None \<Rightarrow> l\<lparr>outs := outs l @ [Hang]\<rparr>
           | Some p \<Rightarrow>
               (case pp_ReadFrom n None p (cl l) of
                  (r, c) \<Rightarrow> l\<lparr>cl := c, outs := outs l @ [void r],
                             got := got l @ (case r of Ok x \<Rightarrow> [x] | _ \<Rightarrow> [])\<rparr>))
      | CWriteTo bs a \<Rightarrow>
          (case ppipe l of
             None \<Rightarrow> l\<lparr>outs := outs l @ [Hang]\<rparr>
           | Some p \<Rightarrow>
               (case pp_WriteTo bs a p (cl l) of
                  (r, c) \<Rightarrow> l\<lparr>cl := c, outs := outs l @ [void r]\<rparr>)))"

definition link_run :: "env \<Rightarrow> env \<Rightarrow> event list \<Rightarrow> link \<Rightarrow> link" where
  "link_run cv v evs l = foldl (link_step cv v) l evs"

lemma link_run_Nil: "link_run cv v [] l = l"
  by (simp add: link_run_def)

lemma link_run_Cons: "link_run cv v (e # es) l = link_run cv v es (link_step cv v l e)"
  by (simp add: link_run_def)

lemmas link_eval =
  link_run_Nil link_run_Cons link_step_def idle_link_def WrapConn_def incoming_of_def void_def
  read_round_def serve_done_def serve_stream_end_def handle_msg_def handleCommand_def handleBinary_def run_command_def run_binary_def
  handle_close_def handle_open_stream_def handle_reply_def handle_error_def fire_result_def
  close_on_err_def sendCmd_def ws_write_def with_lock_def sbind_def sret_def open_start_def
  dial_start_def open_cmd_def dial_wait_def open_wait_def open_cancel_def dial_finish_def
  close_wait_start_def close_wait_end_def close_stream_def emit_def stream_write_def ctx_error_def
  reply_true_def reply_false_def cmd_defs

text \<open>A server that admits every request and whose dialer succeeds with local address \<open>la\<close>.\<close>

definition open_env :: "string \<Rightarrow> env" where
  "open_env la = \<lparr>OnCheckIncoming = None, Dialer = (\<lambda>_ _. Ok (Some la)),
     PacketListener = (\<lambda>_ _. Err ''refused'')\<rparr>"

lemma open_env_simps [simp]:
  "OnCheckIncoming (open_env la) = None" "Dialer (open_env la) p t = Ok (Some la)"
  "incoming_blocked (open_env la) p t = False"
  by (simp_all add: open_env_def incoming_blocked_def)

text \<open>A server that admits a request and reaches its target, from local address \<open>la\<close>.\<close>

definition admits :: "env \<Rightarrow> string \<Rightarrow> string \<Rightarrow> string \<Rightarrow> bool" where
  "admits v p t la \<longleftrightarrow> \<not> incoming_blocked v p t \<and> Dialer v p t = Ok (Some la)"

lemma admits_open_env [simp]: "admits (open_env la) p t la"
  by (simp add: admits_def)

section \<open>The data phase\<close>

datatype transfer = Up bytes | Down bytes

fun transfer_events :: "transfer \<Rightarrow> event list" where
  "transfer_events (Up d) = [CRead (SData d), ToServer]"
| "transfer_events (Down d) = [SRead (SData d), ToClient]"

fun transfer_data :: "transfer \<Rightarrow> bytes" where
  "transfer_data (Up d) = d"
| "transfer_data (Down d) = d"

definition ups :: "transfer list \<Rightarrow> bytes list" where
  "ups ts = map transfer_data (filter (\<lambda>x. case x of Up _ \<Rightarrow> True | Down _ \<Rightarrow> False) ts)"

definition downs :: "transfer list \<Rightarrow> bytes list" where
  "downs ts = map transfer_data (filter (\<lambda>x. case x of Up _ \<Rightarrow> False | Down _ \<Rightarrow> True) ts)"

definition end_ready :: "stream \<Rightarrow> Conn \<Rightarrow> bool" where
  "end_ready s c \<longleftrightarrow> status c = StatusStream \<and> \<not> locked c \<and> streamConn c = Some s \<and>
     ws_wres c = [] \<and> st_wres c = []"

definition streaming :: "stream \<Rightarrow> stream \<Rightarrow> link \<Rightarrow> bool" where
  "streaming s q l \<longleftrightarrow> end_ready q (cl l) \<and> end_ready s (sv l) \<and>
     to_sv l = length (ws_out (cl l)) \<and> to_cl l = length (ws_out (sv l))"

lemma link_run_append: "link_run cv v (es @ fs) l = link_run cv v fs (link_run cv v es l)"
  by (simp add: link_run_def)

lemma transfer_up:
  assumes "streaming s q l" and "d \<noteq> []"
  shows "link_run cv v (transfer_events (Up d)) l =
    l\<lparr>cl := (cl l)\<lparr>ws_out := ws_out (cl l) @ [Binary d]\<rparr>, cl_waits := None, outs := outs l @ [Ok (), Ok ()],
      sv := emit (EWrite s d) (sv l), to_sv := Suc (to_sv l)\<rparr>"
  using assms by (simp add: streaming_def end_ready_def link_eval)

lemma transfer_down:
  assumes "streaming s q l" and "d \<noteq> []"
  shows "link_run cv v (transfer_events (Down d)) l =
    l\<lparr>sv := (sv l)\<lparr>ws_out := ws_out (sv l) @ [Binary d]\<rparr>, sv_waits := None, outs := outs l @ [Ok (), Ok ()],
      cl := emit (EWrite q d) (cl l), to_cl := Suc (to_cl l)\<rparr>"
  using assms by (simp add: streaming_def end_ready_def link_eval)

lemma transfers:
  assumes "streaming s q l" and "\<forall>x\<in>set ts. transfer_data x \<noteq> []"
  shows "\<exists>l'. link_run cv v (concat (map transfer_events ts)) l = l' \<and> streaming s q l' \<and>
    effs (sv l') = effs (sv l) @ map (EWrite s) (ups ts) \<and>
    effs (cl l') = effs (cl l) @ map (EWrite q) (downs ts) \<and>
    onResult (cl l') = onResult (cl l) \<and> next_id (cl l') = next_id (cl l) \<and>
    next_id (sv l') = next_id (sv l) \<and> pipe l' = pipe l \<and> set (outs l') \<subseteq> insert (Ok ()) (set (outs l))"
  using assms
proof (induction ts arbitrary: l)
  case Nil
  then show ?case by (auto simp: link_run_Nil ups_def downs_def)
next
  case (Cons x ts)
  have "streaming s q (link_run cv v (transfer_events x) l) \<and>
    effs (sv (link_run cv v (transfer_events x) l)) = effs (sv l) @ map (EWrite s) (ups [x]) \<and>
    effs (cl (link_run cv v (transfer_events x) l)) = effs (cl l) @ map (EWrite q) (downs [x]) \<and>
    onResult (cl (link_run cv v (transfer_events x) l)) = onResult (cl l) \<and>
    next_id (cl (link_run cv v (transfer_events x) l)) = next_id (cl l) \<and>
    next_id (sv (link_run cv v (transfer_events x) l)) = next_id (sv l) \<and>
    pipe (link_run cv v (transfer_events x) l) = pipe l \<and>
    set (outs (link_run cv v (transfer_events x) l)) \<subseteq> insert (Ok ()) (set (outs l))"
  proof (cases x)
    case (Up d)
    then have "d \<noteq> []" using Cons.prems(2) by simp
    from transfer_up [OF Cons.prems(1) this] show ?thesis
      using Cons.prems(1) Up
      by (auto simp: streaming_def end_ready_def emit_def ups_def downs_def simp del: transfer_events.simps)
  next
    case (Down d)
    then have "d \<noteq> []" using Cons.prems(2) by simp
    from transfer_down [OF Cons.prems(1) this] show ?thesis
      using Cons.prems(1) Down
      by (auto simp: streaming_def end_ready_def emit_def ups_def downs_def simp del: transfer_events.simps)
  qed
  moreover have "ups (x # ts) = ups [x] @ ups ts" "downs (x # ts) = downs [x] @ downs ts"
    by (simp_all add: ups_def downs_def)
  ultimately show ?case
    using Cons.IH [of "link_run cv v (transfer_events x) l"] Cons.prems(2)
    by (auto simp: link_run_append)
qed

text \<open>A link between two sessions: both ends idle with nothing on the way.\<close>

definition at_rest :: "Conn \<Rightarrow> bool" where
  "at_rest c \<longleftrightarrow> status c = StatusIdle \<and> \<not> locked c \<and> ws_wres c = [] \<and> st_wres c = []"

definition resting :: "link \<Rightarrow> bool" where
  "resting l \<longleftrightarrow> at_rest (cl l) \<and> at_rest (sv l) \<and>
     to_sv l = length (ws_out (cl l)) \<and> to_cl l = length (ws_out (sv l))"

lemma resting_idle: "resting idle_link"
  by (simp add: resting_def at_rest_def idle_link_def WrapConn_def)

definition dialling :: "string \<Rightarrow> string \<Rightarrow> event list" where
  "dialling p t = [CDial p t, ToServer, ToClient, CSelect Replied, CFinish]"

lemma opened:
  assumes "CHR '';'' \<notin> set p" and "resting l" and "admits v p t la"
  shows "\<exists>l'. link_run cv v (dialling p t) l = l' \<and>
    streaming (Target (next_id (sv l))) (Pipe (Suc (next_id (cl l)))) l' \<and>
    effs (sv l') = effs (sv l) @ [EDial p t, EServeStream (Target (next_id (sv l)))] \<and>
    effs (cl l') = effs (cl l) @ [EServeStream (Pipe (Suc (next_id (cl l))))] \<and> onResult (cl l') = None \<and>
    next_id (cl l') = next_id (cl l) + 2 \<and> next_id (sv l') = Suc (next_id (sv l)) \<and>
    to_sv l' = Suc (to_sv l) \<and> to_cl l' = Suc (to_cl l) \<and>
    ws_out (sv l') = ws_out (sv l) @ [Text (reply_true la)] \<and>
    onCmdErr (cl l') = Some (CmdErrStream (Suc (next_id (cl l)))) \<and>
    pipe l' = Some \<lparr>pipe_id = Suc (next_id (cl l)), localAddr = split_addr la\<rparr> \<and>
    set (outs l') = insert (Ok ()) (set (outs l))"
  using assms by (simp add: dialling_def streaming_def end_ready_def resting_def at_rest_def admits_def link_eval)

definition hanging_up :: "event list" where
  "hanging_up = [CRead (SEnd ReadEnd), ToServer, ToClient]"

lemma closed:
  assumes "streaming s q l"
  shows "\<exists>l'. link_run cv v hanging_up l = l' \<and> status (cl l') = StatusIdle \<and> status (sv l') = StatusIdle \<and>
    effs (sv l') = effs (sv l) @ [EClose s] \<and> effs (cl l') = effs (cl l) \<and> streamConn (sv l') = None \<and>
    onResult (cl l') = None \<and> pipe l' = pipe l \<and> results (cl l') (next_id (cl l)) = Some (False, []) \<and>
    set (outs l') = insert (Ok ()) (set (outs l))"
  using assms by (simp add: hanging_up_def streaming_def end_ready_def link_eval insert_commute)

section \<open>Properties\<close>

text \<open>A complete stream session, for every protocol and target, every list of non-empty
  transfers in both directions in any order, and the user's close. The server dials the target
  that the client named and no other; the target receives exactly the bytes the user wrote, the
  user exactly those the target sent, message by message and in order; after the close both ends
  are idle, the target is closed, the client's close has been confirmed, and no operation has
  failed.\<close>

theorem stream_session:
  assumes "CHR '';'' \<notin> set p" and "\<forall>x\<in>set ts. transfer_data x \<noteq> []"
  shows "\<exists>l. link_run cv (open_env la) (dialling p t @ concat (map transfer_events ts) @ hanging_up) idle_link = l \<and>
    effs (sv l) = [EDial p t, EServeStream (Target 0)] @ map (EWrite (Target 0)) (ups ts) @ [EClose (Target 0)] \<and>
    effs (cl l) = EServeStream (Pipe 1) # map (EWrite (Pipe 1)) (downs ts) \<and>
    status (cl l) = StatusIdle \<and> status (sv l) = StatusIdle \<and> onResult (cl l) = None \<and>
    set (outs l) = {Ok ()}"
proof -
  let ?r = "link_run cv (open_env la)"
  obtain l1 where l1: "?r (dialling p t) idle_link = l1" "streaming (Target 0) (Pipe (Suc 0)) l1"
    "effs (sv l1) = [EDial p t, EServeStream (Target 0)]" "effs (cl l1) = [EServeStream (Pipe (Suc 0))]"
    "set (outs l1) = {Ok ()}"
    using opened [OF assms(1) resting_idle admits_open_env, of cv la t] by (auto simp: idle_link_def WrapConn_def)
  obtain l2 where l2: "?r (concat (map transfer_events ts)) l1 = l2" "streaming (Target 0) (Pipe (Suc 0)) l2"
    "effs (sv l2) = effs (sv l1) @ map (EWrite (Target 0)) (ups ts)"
    "effs (cl l2) = effs (cl l1) @ map (EWrite (Pipe (Suc 0))) (downs ts)"
    "set (outs l2) \<subseteq> {Ok ()}"
    using transfers [OF l1(2) assms(2), of cv "open_env la"] l1(5) by auto
  show ?thesis
    using closed [OF l2(2), of cv "open_env la"] l1 l2
    by (auto simp: link_run_append)
qed

theorem stream_session_witness:
  "\<exists>l. link_run no_env (open_env ''1.2.3.4:5'')
     (dialling ''tcp'' ''a.b:80'' @ concat (map transfer_events [Up [1, 2], Down [3], Up [4]]) @ hanging_up) idle_link = l \<and>
    effs (sv l) = [EDial ''tcp'' ''a.b:80'', EServeStream (Target 0), EWrite (Target 0) [1, 2],
      EWrite (Target 0) [4], EClose (Target 0)]"
  using stream_session [of "''tcp''" "[Up [1, 2], Down [3], Up [4]]" no_env "''1.2.3.4:5''" "''a.b:80''"]
  by (simp add: ups_def)

text \<open>Data that arrives before the dial returns is lost. If the target speaks first and the
  reader loop handles its message after the reply but before \<open>DialContext\<close> has taken the lock
  again, the message is dropped without a trace: every operation succeeds, both ends are in stream
  mode, all messages are delivered, and nothing was written to the user's pipe. In the other order
  the same message reaches the user.\<close>

theorem early_data_lost:
  assumes "CHR '';'' \<notin> set p" and "d \<noteq> []"
  shows "\<exists>l l'.
    link_run cv (open_env la)
      [CDial p t, ToServer, SRead (SData d), ToClient, CSelect Replied, ToClient, CFinish] idle_link = l \<and>
    link_run cv (open_env la)
      [CDial p t, ToServer, SRead (SData d), ToClient, CSelect Replied, CFinish, ToClient] idle_link = l' \<and>
    set (outs l) = {Ok ()} \<and> status (cl l) = StatusStream \<and> status (sv l) = StatusStream \<and>
    to_cl l = length (ws_out (sv l)) \<and> effs (cl l) = [EServeStream (Pipe 1)] \<and>
    effs (cl l') = [EServeStream (Pipe 1), EWrite (Pipe 1) d]"
  using assms by (simp add: link_eval)

theorem early_data_lost_witness:
  "\<exists>l. link_run no_env (open_env ''1.2.3.4:5'')
      [CDial ''tcp'' ''a.b:22'', ToServer, SRead (SData [83, 83, 72]), ToClient, CSelect Replied, ToClient, CFinish]
      idle_link = l \<and> effs (cl l) = [EServeStream (Pipe 1)]"
  using early_data_lost [of "''tcp''" "[83, 83, 72]" no_env "''1.2.3.4:5''" "''a.b:22''"] by simp

text \<open>C40: Cancelling a dial whose reply has just arrived blocks for ever. When both cases of the
  \<open>select\<close> are ready and the caller's context is chosen, \<open>DialContext\<close> holds the lock while
  \<open>closeAndWaitForIdle\<close> waits for it: the call never returns, no close is sent, and from then on
  neither \<open>Close\<close> nor any incoming message on that connection ever gets the lock.\<close>

theorem dial_cancel_deadlock:
  assumes "CHR '';'' \<notin> set p"
  shows "\<exists>l. link_run cv (open_env la) [CDial p t, ToServer, ToClient, CSelect (CtxDone e)] idle_link = l \<and>
    last (outs l) = Hang \<and> length (ws_out (cl l)) = 1 \<and> locked (cl l) \<and>
    Close (cl l) = (Hang, cl l) \<and>
    handle_msg v (InText s) (cl l) = (Hang, cl l) \<and> handle_msg v (InBinary r) (cl l) = (Hang, cl l)"
  using assms by (simp add: link_eval Close_def)

theorem dial_cancel_deadlock_witness:
  "\<exists>l. link_run no_env (open_env ''1.2.3.4:5'')
      [CDial ''tcp'' ''a.b:22'', ToServer, ToClient, CSelect (CtxDone ContextCanceled)] idle_link = l \<and>
    locked (cl l)"
  using dial_cancel_deadlock [of "''tcp''" no_env "''1.2.3.4:5''" "''a.b:22''" ContextCanceled no_env
      "[]" "\<lparr>rd_chunks = [], rd_end = EOF\<rparr>"] by auto

text \<open>A dial that is cancelled before its reply ruins the connection. \<open>DialContext\<close> returns
  the caller's error and the client is idle, but nobody tells the server, which dials the target
  and is in stream mode; the next dial on this connection makes the server close it with code
  1007, and the first target stays open until then.\<close>

theorem early_cancel_desync:
  assumes "CHR '';'' \<notin> set p"
  shows "\<exists>l l'.
    link_run cv (open_env la) [CDial p t, CSelect (CtxDone e), ToServer, ToClient] idle_link = l \<and>
    outs l = [Ok (), Err e, Ok (), Ok ()] \<and> status (cl l) = StatusIdle \<and> status (sv l) = StatusStream \<and>
    effs (sv l) = [EDial p t, EServeStream (Target 0)] \<and>
    link_run cv (open_env la) [CDial p' t', ToServer] l = l' \<and> status (sv l') = StatusClosed \<and>
    effs (sv l') = effs (sv l) @ [EClose (Target 0), EWsClose 1007 ''Illegal status error'']"
  using assms
  by (simp add: link_eval closeWithCode_def close_conns_def close_packet_def cancel_def Let_def
      StatusInvalidFramePayloadData_def conn_error_text_def)

theorem early_cancel_desync_witness:
  "\<exists>l. link_run no_env (open_env ''1.2.3.4:5'')
      [CDial ''tcp'' ''a.b:22'', CSelect (CtxDone ContextCanceled), ToServer, ToClient] idle_link = l \<and>
    status (cl l) = StatusIdle \<and> status (sv l) = StatusStream"
  using early_cancel_desync [of "''tcp''" no_env "''1.2.3.4:5''" "''a.b:22''" ContextCanceled "[]" "[]"]
  by auto

text \<open>Crossing closes spoil the next dial. If both ends close a stream at the same time, the
  client is idle as soon as the server's close arrives, while the server's confirmation of its own
  close is still on the way. A dial started in between takes that confirmation for its reply and
  fails with an empty remote error, although the server then dials the second target and serves
  it; the client's own close never learns of its confirmation.\<close>

theorem crossing_close_stale_reply:
  assumes "CHR '';'' \<notin> set p" and "CHR '';'' \<notin> set p'"
  shows "\<exists>l l'.
    link_run cv (open_env la)
      (dialling p t @ [SRead (SEnd ReadEnd), CRead (SEnd ReadEnd), ToClient, CDial p' t',
        ToServer, ToClient, CSelect Replied]) idle_link = l \<and>
    last (outs l) = Err (RemoteDialError []) \<and> set (butlast (outs l)) = {Ok ()} \<and>
    results (cl l) 2 = None \<and>
    link_run cv (open_env la) [ToServer, ToServer, ToClient] l = l' \<and>
    status (cl l') = StatusIdle \<and> status (sv l') = StatusStream \<and>
    last (effs (sv l')) = EServeStream (Target 2)"
  using assms by (simp add: link_eval dialling_def numeral_2_eq_2)

theorem crossing_close_stale_reply_witness:
  "\<exists>l. link_run no_env (open_env ''1.2.3.4:5'')
      (dialling ''tcp'' ''a.b:22'' @ [SRead (SEnd ReadEnd), CRead (SEnd ReadEnd), ToClient,
        CDial ''tcp'' ''c.d:80'', ToServer, ToClient, CSelect Replied]) idle_link = l \<and>
    last (outs l) = Err (RemoteDialError [])"
  using crossing_close_stale_reply [of "''tcp''" "''tcp''" no_env "''1.2.3.4:5''" "''a.b:22''" "''c.d:80''"]
  by auto

text \<open>The local address that the client's pipe reports has the server's address as its
  network and an empty address: the client splits the reply at a semicolon that the server never
  writes.\<close>

theorem pipe_local_addr_misplaced:
  assumes "CHR '';'' \<notin> set p" and "CHR '';'' \<notin> set la"
  shows "\<exists>l a. link_run cv (open_env la) (dialling p t) idle_link = l \<and> pipe l = Some a \<and>
    sa_network (localAddr a) = la \<and> sa_addr (localAddr a) = []"
  using opened [OF assms(1) resting_idle admits_open_env, of cv la t] assms(2) by (auto simp: split_addr_def)

theorem pipe_local_addr_misplaced_witness:
  "\<exists>l a. link_run no_env (open_env ''1.2.3.4:5'') (dialling ''tcp'' ''a.b:80'') idle_link = l \<and>
    pipe l = Some a \<and> sa_network (localAddr a) = ''1.2.3.4:5'' \<and> sa_addr (localAddr a) = []"
  using pipe_local_addr_misplaced [of "''tcp''" "''1.2.3.4:5''" no_env "''a.b:80''"] by simp

end
