(* ===== verification/Wpn_Client.thy ===== *)
theory Wpn_Client
  imports Conn_Pool Wire_Session
begin

text \<open>
  The client of \<open>client.go\<close>: the options of its websocket dials, the three pools of connections,
  dialling and listening over a pooled connection, the goroutines that return a connection to the
  idle pool, and shutting down. Connections are addresses into a heap of \<open>Conn\<close> states, because
  pools hold pointers. What the websocket dials return is a list of results to come.
\<close>

section \<open>Dial options\<close>

text \<open>Transports: the package's default, or one supplied by the user. Pointers to option structs
  are options; that a user's struct is changed in place is visible as the new value of
  \<open>WebsocketOpts\<close>.\<close>

datatype transport = DefaultTransport | UserTransport nat

record http_client =
  hc_Transport :: "transport option"

record dial_options =
  HTTPClient :: "http_client option"

record client_opts =
  Transport :: "transport option"
  WebsocketOpts :: "dial_options option"
  cachedOpts :: "dial_options option"

text \<open>\<open>oldDialOpts\<close> is never assigned, so the cache is used only while \<open>WebsocketOpts\<close> is nil.
  \<open>&*p\<close> is \<open>p\<close> itself, not a copy.\<close>

definition fill_opts :: "transport option \<Rightarrow> dial_options \<Rightarrow> dial_options" where
  "fill_opts t opts =
     (let tr = (case t of None \<Rightarrow> DefaultTransport | Some x \<Rightarrow> x)
      in case HTTPClient opts of
           None \<Rightarrow> opts\<lparr>HTTPClient := Some \<lparr>hc_Transport = Some tr\<rparr>\<rparr>
         | Some h \<Rightarrow> (if hc_Transport h = None
                     then opts\<lparr>HTTPClient := Some (h\<lparr>hc_Transport := Some DefaultTransport\<rparr>)\<rparr>
                     else opts))"

definition getWebsocketOpts :: "client_opts \<Rightarrow> dial_options \<times> client_opts" where
  "getWebsocketOpts c =
     (case (cachedOpts c, WebsocketOpts c) of
        (Some o', None) \<Rightarrow> (o', c)
      | (None, None) \<Rightarrow>
          (let o' = fill_opts (Transport c) \<lparr>HTTPClient = None\<rparr> in (o', c\<lparr>cachedOpts := Some o'\<rparr>))
      | (_, Some u) \<Rightarrow>
          (let o' = fill_opts (Transport c) u
           in (o', c\<lparr>cachedOpts := Some o', WebsocketOpts := Some o'\<rparr>)))"

section \<open>Client state\<close>

datatype pool_kind = StreamPool | PacketPool

record Client =
  opts :: client_opts
  idleConns :: "nat connPool"
  streamConns :: "nat connPool"
  packetConns :: "nat connPool"
  heap :: "nat \<Rightarrow> Conn"
  fresh :: nat
  ws_dials :: "string option list"
  cancelled :: bool
  MaxIdleConn :: nat
  pending_adds :: nat
  watchers :: "(nat \<times> nat \<times> pool_kind) list"
  closed_pipes :: "(nat \<times> nat) list"

definition bare_client :: "client_opts \<Rightarrow> string option list \<Rightarrow> Client" where
  "bare_client op ds = \<lparr>opts = op, idleConns = pool_new, streamConns = pool_new, packetConns = pool_new,
     heap = (\<lambda>_. WrapConn), fresh = 0, ws_dials = ds, cancelled = False, MaxIdleConn = 5,
     pending_adds = 0, watchers = [], closed_pipes = []\<rparr>"

definition newConn :: "Client \<Rightarrow> (conn_error, nat) outcome \<times> Client" where
  "newConn k =
     (let k1 = k\<lparr>opts := snd (getWebsocketOpts (opts k)), ws_dials := tl (ws_dials k)\<rparr>
      in case ws_dials k of
           Some e # _ \<Rightarrow> (Err (WsError e), k1)
         | _ \<Rightarrow> (Ok (fresh k), k1\<lparr>heap := (heap k)(fresh k := WrapConn), fresh := Suc (fresh k)\<rparr>))"

definition addIdleConn :: "Client \<Rightarrow> (conn_error, unit) outcome \<times> Client" where
  "addIdleConn = sbind newConn (\<lambda>i k. (Ok (), k\<lparr>idleConns := pool_put i (idleConns k)\<rparr>))"

fun add_idle :: "nat \<Rightarrow> Client \<Rightarrow> Client" where
  "add_idle 0 k = k"
| "add_idle (Suc n) k = add_idle n (snd (addIdleConn k))"

definition NewClient :: "client_opts \<Rightarrow> string option list \<Rightarrow> Client" where
  "NewClient op ds = add_idle (MaxIdleConn (bare_client op ds)) (bare_client op ds)"

definition getIdleConn :: "Client \<Rightarrow> (conn_error, nat) outcome \<times> Client" where
  "getIdleConn k =
     (case (case pool_take_or None (idleConns k) of
              (Some i, p) \<Rightarrow> (Ok i, k\<lparr>idleConns := p\<rparr>)
            | (None, p) \<Rightarrow> newConn k) of
        (r, k') \<Rightarrow>
          (r, if pool_len (idleConns k') * 2 < MaxIdleConn k'
              then k'\<lparr>pending_adds := Suc (pending_adds k')\<rparr> else k'))"

text \<open>The goroutine that \<open>getIdleConn\<close> starts.\<close>

definition run_pending_add :: "Client \<Rightarrow> Client" where
  "run_pending_add k =
     (if pending_adds k = 0 then k
      else snd (addIdleConn (k\<lparr>pending_adds := pending_adds k - 1\<rparr>)))"

section \<open>Calls\<close>

text \<open>The deferred function of both dialling calls: on a client that is shutting down the
  connection is closed and success becomes an error.\<close>

definition finish_call ::
  "nat \<Rightarrow> (conn_error, 'a) outcome \<Rightarrow> Client \<Rightarrow> (conn_error, 'a) outcome \<times> Client" where
  "finish_call i r k =
     (if cancelled k
      then (case Close (heap k i) of
              (Hang, _) \<Rightarrow> (Hang, k)
            | (_, c) \<Rightarrow> ((case r of Ok _ \<Rightarrow> Err ContextCanceled | _ \<Rightarrow> r), k\<lparr>heap := (heap k)(i := c)\<rparr>))
      else (r, k))"

definition dial_done ::
  "pool_kind \<Rightarrow> nat \<Rightarrow> (conn_error, ConnPipe) outcome \<Rightarrow> Client \<Rightarrow> (conn_error, ConnPipe) outcome \<times> Client"
  where
  "dial_done kind i r k =
     (case r of
        Ok p \<Rightarrow>
          (let k1 = k\<lparr>watchers := watchers k @ [(i, pipe_id p, kind)]\<rparr>
           in finish_call i r
                (case kind of
                   StreamPool \<Rightarrow> k1\<lparr>streamConns := pool_put i (streamConns k)\<rparr>
                 | PacketPool \<Rightarrow> k1\<lparr>packetConns := pool_put i (packetConns k)\<rparr>))
      | Err e \<Rightarrow> finish_call i r (k\<lparr>idleConns := pool_put i (idleConns k)\<rparr>)
      | Panic _ \<Rightarrow> finish_call i r k
      | Hang \<Rightarrow> (Hang, k))"

definition over_idle_conn ::
  "pool_kind \<Rightarrow> ConnPipe cop \<Rightarrow> Client \<Rightarrow> (conn_error, ConnPipe) outcome \<times> Client" where
  "over_idle_conn kind op =
     sbind getIdleConn (\<lambda>i k.
       case op (heap k i) of (r, c) \<Rightarrow> dial_done kind i r (k\<lparr>heap := (heap k)(i := c)\<rparr>))"

text \<open>\<open>DialContext\<close> and \<open>ListenPacketContext\<close>; the first arguments are those of the connection's
  own calls.\<close>

definition client_DialContext ::
  "env \<Rightarrow> incoming list \<Rightarrow> select_case \<Rightarrow> incoming list \<Rightarrow> string \<Rightarrow> string \<Rightarrow>
     Client \<Rightarrow> (conn_error, ConnPipe) outcome \<times> Client" where
  "client_DialContext v before ev between protocol t =
     over_idle_conn StreamPool (DialContext (client_env v) before ev between protocol t)"

definition client_ListenPacketContext ::
  "env \<Rightarrow> incoming list \<Rightarrow> select_case \<Rightarrow> incoming list \<Rightarrow> string \<Rightarrow> string \<Rightarrow>
     Client \<Rightarrow> (conn_error, ConnPipe) outcome \<times> Client" where
  "client_ListenPacketContext v before ev between protocol t =
     over_idle_conn PacketPool (ListenPacketContext (client_env v) before ev between protocol t)"

definition client_Ping :: "conn_error option \<Rightarrow> Client \<Rightarrow> (conn_error, unit) outcome \<times> Client" where
  "client_Ping res =
     sbind getIdleConn (\<lambda>i k.
       case Ping res (heap k i) of (r, c) \<Rightarrow> (r, k\<lparr>heap := (heap k)(i := c)\<rparr>))"

text \<open>The goroutine of a dial: it waits for its pipe to close, and moves the connection back.\<close>

definition pipe_closed :: "nat \<Rightarrow> nat \<Rightarrow> Client \<Rightarrow> bool" where
  "pipe_closed i p k \<longleftrightarrow>
     (i, p) \<in> set (closed_pipes k) \<or> EClose (Pipe p) \<in> set (effs (heap k i)) \<or>
     EClosePipe p \<in> set (effs (heap k i))"

definition run_watcher :: "nat \<Rightarrow> Client \<Rightarrow> (conn_error, unit) outcome \<times> Client" where
  "run_watcher n k =
     (if length (watchers k) \<le> n then (Hang, k)
      else case watchers k ! n of
        (i, p, kind) \<Rightarrow>
          (let k1 = k\<lparr>watchers := take n (watchers k) @ drop (Suc n) (watchers k)\<rparr>
           in if \<not> pipe_closed i p k then (if cancelled k then (Ok (), k1) else (Hang, k))
              else case kind of
                     StreamPool \<Rightarrow>
                       (case pool_put_from i (idleConns k) (streamConns k) of
                          Ok (d, s) \<Rightarrow> (Ok (), k1\<lparr>idleConns := d, streamConns := s\<rparr>)
                        | Panic q \<Rightarrow> (Panic q, k) | Err e \<Rightarrow> (Err e, k) | Hang \<Rightarrow> (Hang, k))
                   | PacketPool \<Rightarrow>
                       (case pool_put_from i (idleConns k) (packetConns k) of
                          Ok (d, s) \<Rightarrow> (Ok (), k1\<lparr>idleConns := d, packetConns := s\<rparr>)
                        | Panic q \<Rightarrow> (Panic q, k) | Err e \<Rightarrow> (Err e, k) | Hang \<Rightarrow> (Hang, k))))"

definition user_close :: "nat \<Rightarrow> nat \<Rightarrow> Client \<Rightarrow> Client" where
  "user_close i p k = k\<lparr>closed_pipes := (i, p) # closed_pipes k\<rparr>"

section \<open>Shutting down\<close>

text \<open>The connections of a list are closed one after the other; the close of one whose lock is never
  released does not return.\<close>

fun close_list :: "nat list \<Rightarrow> Client \<Rightarrow> (conn_error, unit) outcome \<times> Client" where
  "close_list [] k = (Ok (), k)"
| "close_list (i # is) k =
     (case Close (heap k i) of
        (Hang, _) \<Rightarrow> (Hang, k)
      | (_, c) \<Rightarrow> close_list is (k\<lparr>heap := (heap k)(i := c)\<rparr>))"

definition close_idle :: "Client \<Rightarrow> (conn_error, unit) outcome \<times> Client" where
  "close_idle k = (case pool_clear (idleConns k) of (is, p) \<Rightarrow> close_list is (k\<lparr>idleConns := p\<rparr>))"

definition close_streams :: "Client \<Rightarrow> (conn_error, unit) outcome \<times> Client" where
  "close_streams k = (case pool_clear (streamConns k) of (is, p) \<Rightarrow> close_list is (k\<lparr>streamConns := p\<rparr>))"

definition close_packets :: "Client \<Rightarrow> (conn_error, unit) outcome \<times> Client" where
  "close_packets k = (case pool_clear (packetConns k) of (is, p) \<Rightarrow> close_list is (k\<lparr>packetConns := p\<rparr>))"

definition client_cancel :: "Client \<Rightarrow> Client" where
  "client_cancel k = k\<lparr>cancelled := True, heap := (\<lambda>i. cancel None (heap k i))\<rparr>"

definition checkConns :: "Client \<Rightarrow> (conn_error, bool) outcome \<times> Client" where
  "checkConns =
     sbind close_idle (\<lambda>_ k. (Ok (pool_len (streamConns k) = 0 \<and> pool_len (packetConns k) = 0), k))"

definition shutdown_abort :: "Client \<Rightarrow> (conn_error, unit) outcome \<times> Client" where
  "shutdown_abort = sbind close_idle (\<lambda>_. sbind close_streams (\<lambda>_. close_packets))"

text \<open>The poll loop. Before each further check the rest of the program runs, which is a function
  of the state; the list ends when the caller's context is done.\<close>

fun shutdown_loop :: "(Client \<Rightarrow> Client) list \<Rightarrow> conn_error \<Rightarrow> Client \<Rightarrow> (conn_error, unit) outcome \<times> Client" where
  "shutdown_loop [] e k =
     sbind checkConns (\<lambda>d. if d then sret () else sbind shutdown_abort (\<lambda>_. sfail e)) k"
| "shutdown_loop (f # ps) e k =
     sbind checkConns (\<lambda>d k1. if d then (Ok (), k1) else shutdown_loop ps e (f k1)) k"

definition client_Shutdown :: "(Client \<Rightarrow> Client) list \<Rightarrow> conn_error \<Rightarrow> Client \<Rightarrow> (conn_error, unit) outcome \<times> Client" where
  "client_Shutdown ps e k = shutdown_loop ps e (client_cancel k)"

section \<open>Where a connection is\<close>

definition pooled :: "Client \<Rightarrow> nat multiset" where
  "pooled k = mset (pool_data (idleConns k)) + mset (pool_data (streamConns k)) + mset (pool_data (packetConns k))"

text \<open>A multiset of connections in which none occurs twice and all have been made.\<close>

definition one_place :: "nat multiset \<Rightarrow> nat \<Rightarrow> bool" where
  "one_place M n \<longleftrightarrow> (\<forall>i. count M i \<le> 1) \<and> (\<forall>i. i \<in># M \<longrightarrow> i < n)"

lemma one_place_mono: "one_place M n \<Longrightarrow> M' \<subseteq># M \<Longrightarrow> n \<le> n' \<Longrightarrow> one_place M' n'"
  unfolding one_place_def subseteq_mset_def
  by (metis le_trans mset_subset_eqD order_less_le_trans subseteq_mset_def)

lemma one_place_new: "one_place M n \<Longrightarrow> one_place (add_mset n M) (Suc n)"
proof -
  assume M: "one_place M n"
  then have "n \<notin># M" by (auto simp: one_place_def)
  then have "count M n = 0" by (simp add: not_in_iff)
  then show ?thesis using M by (auto simp: one_place_def less_Suc_eq)
qed

text \<open>While the client runs, the connections of an active pool are those of the goroutines that
  will take them out.\<close>

definition watched :: "pool_kind \<Rightarrow> (nat \<times> nat \<times> pool_kind) list \<Rightarrow> nat multiset" where
  "watched kind ws = image_mset fst (filter_mset (\<lambda>w. snd (snd w) = kind) (mset ws))"

definition watch_ok :: "Client \<Rightarrow> bool" where
  "watch_ok k \<longleftrightarrow> cancelled k \<or>
     watched StreamPool (watchers k) = mset (pool_data (streamConns k)) \<and>
     watched PacketPool (watchers k) = mset (pool_data (packetConns k))"

lemma watched_simps [simp]:
  "watched kind [] = {#}"
  "watched kind (w # ws) = (if snd (snd w) = kind then {#fst w#} else {#}) + watched kind ws"
  "watched kind (ws @ ws') = watched kind ws + watched kind ws'"
  by (simp_all add: watched_def)

subsection \<open>New and idle connections\<close>

lemma newConn_cases:
  obtains (err) e k' where "newConn k = (Err e, k')" "pooled k' = pooled k" "fresh k' = fresh k"
      "watchers k' = watchers k" "cancelled k' = cancelled k" "streamConns k' = streamConns k"
      "packetConns k' = packetConns k"
  | (new) k' where "newConn k = (Ok (fresh k), k')" "pooled k' = pooled k" "fresh k' = Suc (fresh k)"
      "watchers k' = watchers k" "cancelled k' = cancelled k" "streamConns k' = streamConns k"
      "packetConns k' = packetConns k"
proof (cases "ws_dials k")
  case Nil
  then show ?thesis
    by (intro new [of "snd (newConn k)"]) (simp_all add: newConn_def pooled_def Let_def)
next
  case (Cons x xs)
  show ?thesis
  proof (cases x)
    case None
    then show ?thesis
      using Cons by (intro new [of "snd (newConn k)"]) (simp_all add: newConn_def pooled_def Let_def)
  next
    case (Some e)
    then show ?thesis
      using Cons by (intro err [of "WsError e" "snd (newConn k)"]) (simp_all add: newConn_def pooled_def Let_def)
  qed
qed

lemma pooled_put:
  "pooled (k\<lparr>idleConns := pool_put i (idleConns k)\<rparr>) = add_mset i (pooled k)"
  "pooled (k\<lparr>watchers := w, streamConns := pool_put i (streamConns k)\<rparr>) = add_mset i (pooled k)"
  "pooled (k\<lparr>watchers := w, packetConns := pool_put i (packetConns k)\<rparr>) = add_mset i (pooled k)"
  by (simp_all add: pooled_def pool_put_def)

lemma addIdle_pools:
  obtains "pooled (snd (addIdleConn k)) = pooled k" "fresh (snd (addIdleConn k)) = fresh k"
  | "pooled (snd (addIdleConn k)) = add_mset (fresh k) (pooled k)" "fresh (snd (addIdleConn k)) = Suc (fresh k)"
proof (cases rule: newConn_cases [of k])
  case (err e k')
  then show ?thesis by (intro that(1)) (simp_all add: addIdleConn_def sbind_def)
next
  case (new k')
  then show ?thesis by (intro that(2)) (simp_all add: addIdleConn_def sbind_def pooled_put)
qed

lemma addIdle_watch: "watch_ok k \<Longrightarrow> watch_ok (snd (addIdleConn k))"
  by (cases rule: newConn_cases [of k]) (simp_all add: addIdleConn_def sbind_def watch_ok_def)

text \<open>The connection that \<open>getIdleConn\<close> returns has left the pools or is new.\<close>

lemma getIdleConn_pools:
  assumes "getIdleConn k = (r, k')"
  shows "(case r of
      Ok i \<Rightarrow> pooled k = add_mset i (pooled k') \<and> fresh k' = fresh k \<or>
              pooled k' = pooled k \<and> i = fresh k \<and> fresh k' = Suc (fresh k)
    | _ \<Rightarrow> pooled k' = pooled k \<and> fresh k' = fresh k) \<and> (watch_ok k \<longrightarrow> watch_ok k')"
proof -
  obtain x p where t: "pool_take_or None (idleConns k) = (x, p)"
    by (cases "pool_take_or None (idleConns k)")
  define k1 where "k1 = (case x of Some i \<Rightarrow> k\<lparr>idleConns := p\<rparr> | None \<Rightarrow> snd (newConn k))"
  define r1 where "r1 = (case x of Some i \<Rightarrow> Ok i | None \<Rightarrow> fst (newConn k))"
  have k': "r = r1" "pooled k' = pooled k1" "fresh k' = fresh k1" "watch_ok k' = watch_ok k1"
    using assms t by (auto simp: getIdleConn_def k1_def r1_def pooled_def watch_ok_def
        split: option.splits prod.splits if_splits)
  show ?thesis
  proof (cases x)
    case None
    show ?thesis
    proof (cases rule: newConn_cases [of k])
      case (err e k2)
      then show ?thesis using k' by (simp add: k1_def r1_def None watch_ok_def)
    next
      case (new k2)
      then show ?thesis using k' by (simp add: k1_def r1_def None watch_ok_def)
    qed
  next
    case (Some i)
    then have "mset (pool_data (idleConns k)) = add_mset i (mset (pool_data p))"
      using t pool.take_held [of "idleConns k" i p] by simp
    then have "pooled k = add_mset i (pooled k1)" by (simp add: pooled_def k1_def Some)
    then show ?thesis using k' by (simp add: k1_def r1_def Some watch_ok_def)
  qed
qed

subsection \<open>Calls and their goroutines\<close>

lemma finish_frame:
  "pooled (snd (finish_call i r k)) = pooled k" "fresh (snd (finish_call i r k)) = fresh k"
  "watch_ok (snd (finish_call i r k)) = watch_ok k"
  by (simp_all add: finish_call_def pooled_def watch_ok_def split: prod.split outcome.split)

lemma dial_done_simps:
  "dial_done StreamPool i (Ok p) k = finish_call i (Ok p)
     (k\<lparr>watchers := watchers k @ [(i, pipe_id p, StreamPool)], streamConns := pool_put i (streamConns k)\<rparr>)"
  "dial_done PacketPool i (Ok p) k = finish_call i (Ok p)
     (k\<lparr>watchers := watchers k @ [(i, pipe_id p, PacketPool)], packetConns := pool_put i (packetConns k)\<rparr>)"
  "dial_done kind i (Err e) k = finish_call i (Err e) (k\<lparr>idleConns := pool_put i (idleConns k)\<rparr>)"
  "dial_done kind i (Panic q) k = finish_call i (Panic q) k"
  "dial_done kind i Hang k = (Hang, k)"
  by (simp_all add: dial_done_def)

lemma dial_done_pools:
  assumes "r = Ok p \<or> r = Err e"
  shows "pooled (snd (dial_done kind i r k)) = add_mset i (pooled k)"
    and "fresh (snd (dial_done kind i r k)) = fresh k"
  using assms by (cases kind; auto simp: dial_done_simps finish_frame pooled_put)+

lemma dial_done_watch:
  assumes "watch_ok k"
  shows "watch_ok (snd (dial_done kind i r k))"
proof (cases r)
  case (Ok p)
  have "watch_ok (k\<lparr>watchers := watchers k @ [(i, pipe_id p, StreamPool)], streamConns := pool_put i (streamConns k)\<rparr>)"
    "watch_ok (k\<lparr>watchers := watchers k @ [(i, pipe_id p, PacketPool)], packetConns := pool_put i (packetConns k)\<rparr>)"
    using assms by (simp_all add: watch_ok_def pool_put_def)
  then show ?thesis using Ok by (cases kind) (simp_all only: dial_done_simps finish_frame)
next
  case (Err e)
  have "watch_ok (k\<lparr>idleConns := pool_put i (idleConns k)\<rparr>)"
    using assms by (simp add: watch_ok_def)
  then show ?thesis using Err by (simp only: dial_done_simps finish_frame)
qed (simp_all add: dial_done_simps finish_frame assms)

subsection \<open>The goroutines that return connections\<close>

lemma watched_nth:
  "n < length ws \<Longrightarrow> watched kind ws =
     (if snd (snd (ws ! n)) = kind then {#fst (ws ! n)#} else {#}) + watched kind (take n ws @ drop (Suc n) ws)"
  using id_take_nth_drop [of n ws] by (metis append_Cons watched_simps(2,3) add.left_commute)

lemma pool_put_from_held:
  assumes "i \<in># mset (pool_data s)"
  obtains d' s' where "pool_put_from i d s = (Ok (d', s') :: (conn_error, _) outcome)"
    "mset (pool_data d') = add_mset i (mset (pool_data d))"
    "add_mset i (mset (pool_data s')) = mset (pool_data s)"
proof -
  have ok: "snd (pool_remove i s)" "mset (pool_data (fst (pool_remove i s))) = mset (pool_data s) - {#i#}"
    using assms by (simp_all add: pool_remove_flag pool_remove_mset)
  then show ?thesis
    using assms
    by (intro that [of "pool_put i d" "fst (pool_remove i s)"])
      (auto simp: pool_put_from_def pool_put_def split: prod.split)
qed

lemma run_watcher_runs:
  assumes "watch_ok k" and "\<not> cancelled k" and "n < length (watchers k)"
    and "watchers k ! n = (i, p, kind)" and "pipe_closed i p k"
  shows "\<exists>k'. run_watcher n k = (Ok (), k') \<and> pooled k' = pooled k \<and> fresh k' = fresh k \<and> watch_ok k' \<and>
    mset (pool_data (idleConns k')) = add_mset i (mset (pool_data (idleConns k))) \<and> heap k' = heap k"
proof (cases kind)
  case StreamPool
  have w: "mset (pool_data (streamConns k)) =
      add_mset i (watched StreamPool (take n (watchers k) @ drop (Suc n) (watchers k)))"
    "watched PacketPool (take n (watchers k) @ drop (Suc n) (watchers k)) = mset (pool_data (packetConns k))"
    using assms(1,2,4) watched_nth [OF assms(3), of StreamPool] watched_nth [OF assms(3), of PacketPool] StreamPool
    by (simp_all add: watch_ok_def)
  then have "i \<in># mset (pool_data (streamConns k))" by simp
  then obtain d s where ds: "pool_put_from i (idleConns k) (streamConns k) = (Ok (d, s) :: (conn_error, _) outcome)"
    "mset (pool_data d) = add_mset i (mset (pool_data (idleConns k)))"
    "add_mset i (mset (pool_data s)) = mset (pool_data (streamConns k))"
    by (rule pool_put_from_held)
  from ds(3) show ?thesis
    using assms(3-5) ds(1,2) w StreamPool
    by (simp add: run_watcher_def watch_ok_def) (simp add: pooled_def ac_simps flip: ds(3))
next
  case PacketPool
  have w: "mset (pool_data (packetConns k)) =
      add_mset i (watched PacketPool (take n (watchers k) @ drop (Suc n) (watchers k)))"
    "watched StreamPool (take n (watchers k) @ drop (Suc n) (watchers k)) = mset (pool_data (streamConns k))"
    using assms(1,2,4) watched_nth [OF assms(3), of StreamPool] watched_nth [OF assms(3), of PacketPool] PacketPool
    by (simp_all add: watch_ok_def)
  then have "i \<in># mset (pool_data (packetConns k))" by simp
  then obtain d s where ds: "pool_put_from i (idleConns k) (packetConns k) = (Ok (d, s) :: (conn_error, _) outcome)"
    "mset (pool_data d) = add_mset i (mset (pool_data (idleConns k)))"
    "add_mset i (mset (pool_data s)) = mset (pool_data (packetConns k))"
    by (rule pool_put_from_held)
  from ds(3) show ?thesis
    using assms(3-5) ds(1,2) w PacketPool
    by (simp add: run_watcher_def watch_ok_def) (simp add: pooled_def ac_simps flip: ds(3))
qed

subsection \<open>Closing lists of connections\<close>

definition unlocked :: "Client \<Rightarrow> bool" where
  "unlocked k \<longleftrightarrow> (\<forall>i. \<not> locked (heap k i))"

text \<open>Only the heap changes, whatever happens.\<close>

lemma close_list_frame: "snd (close_list is k) = k\<lparr>heap := heap (snd (close_list is k))\<rparr>"
proof (induction "is" arbitrary: k)
  case (Cons i "is")
  obtain r c where c: "Close (heap k i) = (r, c)" by (cases "Close (heap k i)")
  have "snd (close_list is (k\<lparr>heap := (heap k)(i := c)\<rparr>)) =
      k\<lparr>heap := heap (snd (close_list is (k\<lparr>heap := (heap k)(i := c)\<rparr>)))\<rparr>"
    by (subst Cons) simp
  then show ?case using c by (cases r) simp_all
qed simp

lemma close_conn_ok:
  assumes "\<not> locked c"
  obtains r c' where "Close c = (r, c')" "r \<noteq> Hang" "status c' = StatusClosed" "\<not> locked c'"
  using assms
  by (cases "status c = StatusClosed"; cases "cerr c"; cases "ws_cres c")
    (auto simp: Close_def with_lock_def close_conns_def close_packet_def close_stream_def emit_def cancel_def
      split: option.splits)

text \<open>If no lock is held for ever, all of them are closed.\<close>

lemma close_list_closes:
  "unlocked k \<Longrightarrow> \<exists>k'. close_list is k = (Ok (), k') \<and> unlocked k' \<and>
     (\<forall>i. i \<in> set is \<or> status (heap k i) = StatusClosed \<longrightarrow> status (heap k' i) = StatusClosed)"
proof (induction "is" arbitrary: k)
  case (Cons i "is")
  from Cons.prems have "\<not> locked (heap k i)" by (simp add: unlocked_def)
  then obtain r c where c: "Close (heap k i) = (r, c)" "r \<noteq> Hang" "status c = StatusClosed" "\<not> locked c"
    by (rule close_conn_ok)
  let ?k = "k\<lparr>heap := (heap k)(i := c)\<rparr>"
  have "unlocked ?k" using Cons.prems c by (simp add: unlocked_def)
  then obtain k' where k': "close_list is ?k = (Ok (), k')" "unlocked k'"
    "\<And>j. j \<in> set is \<or> status (heap ?k j) = StatusClosed \<Longrightarrow> status (heap k' j) = StatusClosed"
    using Cons.IH [of ?k] by auto
  have "close_list (i # is) k = (Ok (), k')" using c k'(1) by (cases r) simp_all
  then show ?case using k'(2,3) c(3) by auto
qed auto

end
