(* ===== verification/Wire_Command.thy ===== *)
theory Wire_Command
  imports Wire_Step
begin

text \<open>
  What single commands do: the two open commands on every branch, the close command, and the
  messages that take a connection where it should not go.
\<close>

lemmas command_eval =
  handle_msg_def handleCommand_def run_command_def with_lock_def cmd_defs sendCmd_def close_on_err_def
  ws_write_def emit_def Let_def sbind_def

definition ready :: "Conn \<Rightarrow> bool" where
  "ready c \<longleftrightarrow> \<not> locked c \<and> ws_wres c = []"

text \<open>The answer of a dialer or listener that returns a connection or an error.\<close>

definition answer :: "string + string \<Rightarrow> (string, string option) outcome" where
  "answer r = (case r of Inl e \<Rightarrow> Err e | Inr la \<Rightarrow> Ok (Some la))"

definition open_reply :: "bool \<Rightarrow> string + string \<Rightarrow> string" where
  "open_reply bl r =
     (if bl then ''RFIncoming request blocked''
      else case r of Inl e \<Rightarrow> ''RF'' @ e | Inr la \<Rightarrow> ''RT'' @ la)"

lemma open_stream_branches:
  assumes "ready c" and "status c = StatusIdle" and "CHR '';'' \<notin> set p" and "Dialer v p t = answer r"
  shows "\<exists>c'. handle_msg v (InText (open_cmd cmdOpenStream p t)) c = (Ok (), c') \<and>
    ws_out c' = ws_out c @ [Text (open_reply (incoming_blocked v p t) r)] \<and>
    (if incoming_blocked v p t then effs c' = effs c \<and> status c' = StatusIdle
     else if isl r then effs c' = effs c @ [EDial p t] \<and> status c' = StatusIdle
     else effs c' = effs c @ [EDial p t, EServeStream (Target (next_id c))] \<and> status c' = StatusStream \<and>
          streamConn c' = Some (Target (next_id c)))"
  using assms
  by (cases r) (auto simp: command_eval handle_open_stream_def open_cmd_def open_reply_def answer_def ready_def
      reply_true_def reply_false_def)

lemma open_packet_branches:
  assumes "ready c" and "status c = StatusIdle" and "CHR '';'' \<notin> set p" and "PacketListener v p t = answer r"
  shows "\<exists>c'. handle_msg v (InText (open_cmd cmdOpenPacket p t)) c = (Ok (), c') \<and>
    ws_out c' = ws_out c @ [Text (open_reply (incoming_blocked v p t) r)] \<and>
    (if incoming_blocked v p t then effs c' = effs c \<and> status c' = StatusIdle
     else if isl r then effs c' = effs c @ [EListen p t] \<and> status c' = StatusIdle
     else effs c' = effs c @ [EListen p t, EServePacket (next_id c)] \<and> status c' = StatusPacket \<and>
          packetConn c' = Some (next_id c))"
  using assms
  by (cases r) (auto simp: command_eval handle_open_packet_def open_cmd_def open_reply_def answer_def ready_def
      reply_true_def reply_false_def)

section \<open>Properties\<close>



text \<open>The close command leaves a packet connection open. After it the connection is idle and
  its peer has the confirmation, but the listener's socket is still referenced and never closed,
  and the next packet open overwrites the reference.\<close>

theorem close_leaks_packet_conn:
  assumes "ready c" and "status c = StatusIdle" and "CHR '';'' \<notin> set p" and "\<not> incoming_blocked v p t"
    and "PacketListener v p t = Ok (Some la)" and "packetConn c = None" and "streamConn c = None"
  shows "\<exists>c1 c2.
    handle_msgs v [InText (open_cmd cmdOpenPacket p t), InText [cmdClose]] c = (Ok (), c1) \<and>
    status c1 = StatusIdle \<and> packetConn c1 = Some (next_id c) \<and> last (ws_out c1) = Text [cmdReply] \<and>
    handle_msgs v [InText (open_cmd cmdOpenPacket p t)] c1 = (Ok (), c2) \<and>
    packetConn c2 = Some (next_id c + 1) \<and>
    filter (\<lambda>e. e = EClosePacket (next_id c)) (effs c2) = filter (\<lambda>e. e = EClosePacket (next_id c)) (effs c)"
  using assms
  by (simp add: command_eval handle_open_packet_def handle_close_def close_stream_def open_cmd_def ready_def
      reply_true_def)

theorem close_leaks_packet_conn_witness:
  "\<exists>c1. handle_msgs (no_env\<lparr>PacketListener := \<lambda>_ _. Ok (Some ''x'')\<rparr>)
      [InText (open_cmd cmdOpenPacket ''udp'' ''h:1''), InText [cmdClose]] WrapConn = (Ok (), c1) \<and>
    status c1 = StatusIdle \<and> packetConn c1 = Some 0"
  using close_leaks_packet_conn [of WrapConn "''udp''" "no_env\<lparr>PacketListener := \<lambda>_ _. Ok (Some ''x'')\<rparr>" "''h:1''" "''x''"]
  by (auto simp: ready_def WrapConn_def incoming_blocked_def no_env_def)

text \<open>The server never forwards a client's packet. On a connection in packet mode that has no
  packet channel, as on every server, a well-formed data message is accepted, its sender goroutine
  finds a nil channel, and the state is the same as before the message: nothing is written to the
  packet connection.\<close>

theorem server_drops_client_packets:
  assumes "\<not> locked c" and "status c = StatusPacket" and "packetDataCh c = None" and "spawned c = []"
    and "length (sa_network a) < 256" and "length (sa_addr a) < 256"
  shows "\<exists>c'. handle_msg v (InBinary \<lparr>rd_chunks = [packet_frame a data], rd_end = EOF\<rparr>) c = (Ok (), c') \<and>
    length (spawned c') = 1 \<and> run_sender 0 c' = c"
  using assms read_packet_one_chunk [OF assms(5,6), of data]
  by (simp add: handle_msg_def handleBinary_def with_lock_def run_binary_def packet_outcome_def run_sender_def remove_at_def)

theorem server_drops_client_packets_witness:
  "\<exists>c'. handle_msg no_env (InBinary \<lparr>rd_chunks = [packet_frame \<lparr>sa_network = ''udp'', sa_addr = ''h:1''\<rparr> [7]],
      rd_end = EOF\<rparr>) (WrapConn\<lparr>status := StatusPacket, packetConn := Some 0\<rparr>) = (Ok (), c') \<and>
    run_sender 0 c' = WrapConn\<lparr>status := StatusPacket, packetConn := Some 0\<rparr>"
  using server_drops_client_packets [of "WrapConn\<lparr>status := StatusPacket, packetConn := Some 0\<rparr>"
      "\<lparr>sa_network = ''udp'', sa_addr = ''h:1''\<rparr>" no_env "[7]"]
  by (auto simp: WrapConn_def)

lemma sendCmd_no_panic: "fst (sendCmd cmd c) \<noteq> Panic p"
  by (auto simp: sendCmd_def close_on_err_def ws_write_def split: list.split option.split)

lemma handle_close_no_panic: "fst (handle_close c) \<noteq> Panic p"
proof -
  obtain r c' where "sendCmd [cmdReply] (close_stream (c\<lparr>status := StatusIdle\<rparr>)) = (r, c')"
    by (cases "sendCmd [cmdReply] (close_stream (c\<lparr>status := StatusIdle\<rparr>))")
  then show ?thesis
    using sendCmd_no_panic [of "[cmdReply]" "close_stream (c\<lparr>status := StatusIdle\<rparr>)"]
    by (cases r) (auto simp: handle_close_def close_on_err_def)
qed

lemma blocked_open_no_panic:
  "(\<And>q t. incoming_blocked v q t) \<Longrightarrow> fst (handle_open_stream v args c) \<noteq> Panic p"
  "(\<And>q t. incoming_blocked v q t) \<Longrightarrow> fst (handle_open_packet v args c) \<noteq> Panic p"
  by (auto simp: handle_open_stream_def handle_open_packet_def sendCmd_no_panic split: prod.split)

text \<open>C39: Exactly which text messages crash a client. The reader loop of a client panics, and with
  it the process, on the empty message and on an error message for a packet pipe whose channel is
  gone or has a sender goroutine blocked on it (closing the channel makes that goroutine panic); on
  no other message and in no other state.\<close>

theorem client_panics_iff:
  assumes "\<not> locked c"
  shows "(\<exists>p. fst (handle_msg (client_env v) (InText s) c) = Panic p) \<longleftrightarrow>
    s = [] \<or> hd s = cmdError \<and> status c \<noteq> StatusIdle \<and> (\<exists>i. onCmdErr c = Some (CmdErrPacket i)) \<and>
      (packetDataCh c = None \<or> blocked c \<noteq> [])"
proof (cases s)
  case Nil
  then show ?thesis using assms by (simp add: handle_msg_def handleCommand_def with_lock_def run_command_def)
next
  case (Cons k args)
  have "fst (handle_open_stream (client_env v) args c) \<noteq> Panic p"
    "fst (handle_open_packet (client_env v) args c) \<noteq> Panic p" for p
    by (rule blocked_open_no_panic [OF client_blocks])+
  then show ?thesis
    using assms Cons handle_close_no_panic
    by (auto simp: handle_msg_def handleCommand_def with_lock_def run_command_def handle_reply_def
        handle_error_def close_packet_ch_def emit_def cmd_defs
        split: option.split on_cmd_err.split if_splits)
qed

theorem client_panics_iff_witness:
  "(\<exists>p. fst (handle_msg (client_env no_env) (InText []) WrapConn) = Panic p) \<and>
   (\<exists>p. fst (handle_msg (client_env no_env) (InText ''Egone'')
     (WrapConn\<lparr>status := StatusPacket, onCmdErr := Some (CmdErrPacket 1), packetDataCh := Some [],
        blocked := [\<lparr>pk_addr = \<lparr>sa_network = [], sa_addr = []\<rparr>, pk_buf = [], pk_err = None\<rparr>]\<rparr>)) = Panic p)"
  using client_panics_iff [of WrapConn no_env "[]"] client_panics_iff
      [of "WrapConn\<lparr>status := StatusPacket, onCmdErr := Some (CmdErrPacket 1), packetDataCh := Some [],
        blocked := [\<lparr>pk_addr = \<lparr>sa_network = [], sa_addr = []\<rparr>, pk_buf = [], pk_err = None\<rparr>]\<rparr>"
        no_env "''Egone''"]
  by (simp add: WrapConn_def cmdError_def)

text \<open>A short packet silences a client. In packet mode a data message that ends within its header, such
  as an empty one, ends the reader loop with an error, but the connection is left as it is: not closed,
  its context not cancelled, the messages behind it unread. A user who waits in \<open>ReadFrom\<close>
  waits for ever.\<close>

lemma read_packet_empty: "read_packet \<lparr>rd_chunks = [], rd_end = e\<rparr> = Err e"
  by (simp add: read_packet_def read_field_def br_read_byte_def br_fill_def br_under_def rd_read_def br_new_def sbind_def)

theorem short_packet_silences:
  assumes "\<not> locked c" and "status c = StatusPacket" and "packetDataCh c = Some []" and "read_packet r = Err e"
  shows "Wire_Conn.Handle v (InBinary r # ms) fin c = (Err (IoError e), c) \<and>
    pp_ReadFrom n None newConnPacketPipe c = (Hang, c)"
  using assms
  by (simp add: handle_msg_def handleBinary_def with_lock_def run_binary_def sbind_def pp_ReadFrom_def newConnPacketPipe_def)

theorem short_packet_silences_witness:
  "Wire_Conn.Handle no_env [InBinary \<lparr>rd_chunks = [], rd_end = EOF\<rparr>, InText [cmdClose]] ReadEOF
      (WrapConn\<lparr>status := StatusPacket, packetDataCh := Some []\<rparr>) =
    (Err (IoError EOF), WrapConn\<lparr>status := StatusPacket, packetDataCh := Some []\<rparr>)"
  using short_packet_silences [of "WrapConn\<lparr>status := StatusPacket, packetDataCh := Some []\<rparr>", OF _ _ _ read_packet_empty]
  by (simp add: WrapConn_def)

end
