(* ===== verification/Client_Pools.thy ===== *)
theory Client_Pools
  imports Wpn_Client Wire_Command
begin

text \<open>
  The client as a transition system: calls in progress hold a connection between taking it from
  the idle pool and putting it somewhere, and everything else interleaves. Where connections are is
  an invariant of its reachable states.
\<close>

section \<open>Steps\<close>

lemma put_from_conserves:
  assumes "pool_put_from c d s = (Ok (d', s') :: (conn_error, _) outcome)"
  shows "mset (pool_data d') + mset (pool_data s') = mset (pool_data d) + mset (pool_data s)"
  using assms pool.move_conserves [of c d s]
  by (auto simp: pool_put_from_move split: option.splits)

lemma run_watcher_cases:
  assumes "run_watcher n k = (r, k')"
  obtains (stay) "k' = k"
  | (gone) w where "cancelled k" "k' = k\<lparr>watchers := w\<rparr>"
  | (stream) i w d s where "pool_put_from i (idleConns k) (streamConns k) = (Ok (d, s) :: (conn_error, _) outcome)"
      "k' = k\<lparr>watchers := w, idleConns := d, streamConns := s\<rparr>"
  | (packet) i w d s where "pool_put_from i (idleConns k) (packetConns k) = (Ok (d, s) :: (conn_error, _) outcome)"
      "k' = k\<lparr>watchers := w, idleConns := d, packetConns := s\<rparr>"
proof (cases "length (watchers k) \<le> n")
  case True
  then show ?thesis using assms stay by (simp add: run_watcher_def)
next
  case False
  obtain i p kind where w: "watchers k ! n = (i, p, kind)" by (cases "watchers k ! n")
  show ?thesis
  proof (cases "pipe_closed i p k")
    case no: False
    let ?w = "take n (watchers k) @ drop (Suc n) (watchers k)"
    have "k' = (if cancelled k then k\<lparr>watchers := ?w\<rparr> else k)"
      using assms w False no by (simp add: run_watcher_def Let_def split: if_splits)
    then show ?thesis by (cases "cancelled k") (auto intro: stay gone)
  next
    case yes: True
    let ?w = "take n (watchers k) @ drop (Suc n) (watchers k)"
    show ?thesis
    proof (cases kind)
      case StreamPool
      then have eq: "run_watcher n k =
          (case pool_put_from i (idleConns k) (streamConns k) of
             Ok (d, s) \<Rightarrow> (Ok (), k\<lparr>watchers := ?w, idleConns := d, streamConns := s\<rparr>)
           | Panic q \<Rightarrow> (Panic q, k) | Err e \<Rightarrow> (Err e, k) | Hang \<Rightarrow> (Hang, k))"
        using w False yes by (simp add: run_watcher_def Let_def)
      show ?thesis
      proof (cases "pool_put_from i (idleConns k) (streamConns k) :: (conn_error, _) outcome")
        case (Ok ds)
        then show ?thesis using eq assms by (cases ds) (auto intro: stream)
      qed (use eq assms in \<open>auto intro: stay\<close>)
    next
      case PacketPool
      then have eq: "run_watcher n k =
          (case pool_put_from i (idleConns k) (packetConns k) of
             Ok (d, s) \<Rightarrow> (Ok (), k\<lparr>watchers := ?w, idleConns := d, packetConns := s\<rparr>)
           | Panic q \<Rightarrow> (Panic q, k) | Err e \<Rightarrow> (Err e, k) | Hang \<Rightarrow> (Hang, k))"
        using w False yes by (simp add: run_watcher_def Let_def)
      show ?thesis
      proof (cases "pool_put_from i (idleConns k) (packetConns k) :: (conn_error, _) outcome")
        case (Ok ds)
        then show ?thesis using eq assms by (cases ds) (auto intro: packet)
      qed (use eq assms in \<open>auto intro: stay\<close>)
    qed
  qed
qed

lemma run_watcher_pools:
  assumes "run_watcher n k = (r, k')"
  shows "pooled k' = pooled k \<and> fresh k' = fresh k \<and> cancelled k' = cancelled k"
  using assms
proof (cases rule: run_watcher_cases)
  case (stream i w d s)
  then show ?thesis using put_from_conserves [OF stream(1)] by (simp add: pooled_def)
next
  case (packet i w d s)
  have "mset (pool_data d) + mset (pool_data s) + M = mset (pool_data (idleConns k)) + mset (pool_data (packetConns k)) + M" for M
    using put_from_conserves [OF packet(1)] by simp
  from this [of "mset (pool_data (streamConns k))"] show ?thesis
    using packet by (simp add: pooled_def ac_simps)
qed (simp_all add: pooled_def)

lemma run_watcher_watch:
  assumes "run_watcher n k = (r, k')" and "watch_ok k"
  shows "watch_ok k'"
proof (cases "cancelled k")
  case True
  then show ?thesis using run_watcher_pools [OF assms(1)] by (simp add: watch_ok_def)
next
  case False
  show ?thesis
  proof (cases "length (watchers k) \<le> n")
    case True
    then show ?thesis using assms by (auto simp: run_watcher_def)
  next
    case len: False
    obtain i p kind where w: "watchers k ! n = (i, p, kind)" by (cases "watchers k ! n")
    show ?thesis
    proof (cases "pipe_closed i p k")
      case True
      then show ?thesis using run_watcher_runs [OF assms(2) False _ w] len assms(1) by auto
    next
      case closed: False
      then show ?thesis using assms len w False by (auto simp: run_watcher_def)
    qed
  qed
qed

text \<open>\<open>held\<close> are the connections of calls in progress.\<close>

type_synonym client_state = "Client \<times> nat multiset"

inductive client_step :: "client_state \<Rightarrow> client_state \<Rightarrow> bool" where
  take: "getIdleConn k = (Ok i, k') \<Longrightarrow> client_step (k, held) (k', add_mset i held)"
| take_error: "getIdleConn k = (Err e, k') \<Longrightarrow> client_step (k, held) (k', held)"
| conn: "client_step (k, held) (k\<lparr>heap := (heap k)(i := c)\<rparr>, held)"
| call_end: "i \<in># held \<Longrightarrow> r = Ok p \<or> r = Err e \<Longrightarrow>
    client_step (k, held) (snd (dial_done kind i r k), held - {#i#})"
| ping_end: "i \<in># held \<Longrightarrow> client_step (k, held) (k, held - {#i#})"
| refill: "client_step (k, held) (run_pending_add k, held)"
| watcher: "run_watcher n k = (r, k') \<Longrightarrow> client_step (k, held) (k', held)"
| user: "client_step (k, held) (user_close i pi k, held)"
| stop: "client_step (k, held) (client_cancel k, held)"
| poll: "cancelled k \<Longrightarrow> client_step (k, held) (snd (checkConns k), held)"
| abort: "cancelled k \<Longrightarrow> client_step (k, held) (snd (shutdown_abort k), held)"

inductive_cases client_stepE: "client_step (k, held) s'"

definition client_ok :: "client_state \<Rightarrow> bool" where
  "client_ok s \<longleftrightarrow> one_place (pooled (fst s) + snd s) (fresh (fst s)) \<and> watch_ok (fst s)"

lemma watch_ok_frame:
  "watchers k' = watchers k \<Longrightarrow> cancelled k' = cancelled k \<Longrightarrow> streamConns k' = streamConns k \<Longrightarrow>
   packetConns k' = packetConns k \<Longrightarrow> watch_ok k' = watch_ok k"
  by (simp add: watch_ok_def)

lemma pool_clear_eq: "pool_clear p = (pool_data p, pool_new)"
  by (cases p) (simp add: pool_clear_def pool_new_def)

text \<open>Closing takes connections out of the pools and changes nothing else but the heap.\<close>

lemma closing_pools:
  "\<exists>h. snd (close_idle k) = k\<lparr>idleConns := pool_new, heap := h\<rparr>"
  "\<exists>h. snd (close_streams k) = k\<lparr>streamConns := pool_new, heap := h\<rparr>"
  "\<exists>h. snd (close_packets k) = k\<lparr>packetConns := pool_new, heap := h\<rparr>"
  using close_list_frame [of "pool_data (idleConns k)" "k\<lparr>idleConns := pool_new\<rparr>"]
    close_list_frame [of "pool_data (streamConns k)" "k\<lparr>streamConns := pool_new\<rparr>"]
    close_list_frame [of "pool_data (packetConns k)" "k\<lparr>packetConns := pool_new\<rparr>"]
  unfolding close_idle_def close_streams_def close_packets_def pool_clear_eq by simp_all blast+

lemma closing_frames:
  "idleConns (snd (checkConns k)) = pool_new" "streamConns (snd (checkConns k)) = streamConns k"
  "packetConns (snd (checkConns k)) = packetConns k" "fresh (snd (checkConns k)) = fresh k"
  "watchers (snd (checkConns k)) = watchers k" "cancelled (snd (checkConns k)) = cancelled k"
  using closing_pools(1) [of k]
  by (cases "close_idle k"; cases "fst (close_idle k)"; auto simp: checkConns_def sbind_def)+

lemma shutdown_abort_states:
  "\<exists>h. snd (shutdown_abort k) \<in>
     {k\<lparr>idleConns := pool_new, heap := h\<rparr>,
      k\<lparr>idleConns := pool_new, streamConns := pool_new, heap := h\<rparr>,
      k\<lparr>idleConns := pool_new, streamConns := pool_new, packetConns := pool_new, heap := h\<rparr>}"
proof -
  obtain r1 k1 where 1: "close_idle k = (r1, k1)" by (cases "close_idle k")
  obtain r2 k2 where 2: "close_streams k1 = (r2, k2)" by (cases "close_streams k1")
  obtain r3 k3 where 3: "close_packets k2 = (r3, k3)" by (cases "close_packets k2")
  obtain h1 h2 h3 where h: "k1 = k\<lparr>idleConns := pool_new, heap := h1\<rparr>"
    "k2 = k\<lparr>idleConns := pool_new, streamConns := pool_new, heap := h2\<rparr>"
    "k3 = k\<lparr>idleConns := pool_new, streamConns := pool_new, packetConns := pool_new, heap := h3\<rparr>"
    using closing_pools(1) [of k] closing_pools(2) [of k1] closing_pools(3) [of k2] 1 2 3 by auto
  have "snd (shutdown_abort k) \<in> {k1, k2, k3}"
    using 1 2 3 by (cases r1; cases r2) (simp_all add: shutdown_abort_def sbind_def)
  then show ?thesis unfolding h by blast
qed

lemma shutdown_abort_frame:
  "pooled (snd (shutdown_abort k)) \<subseteq># pooled k \<and> fresh (snd (shutdown_abort k)) = fresh k \<and>
   cancelled (snd (shutdown_abort k)) = cancelled k"
  using shutdown_abort_states [of k] by (auto simp: pooled_def pool_new_def)

lemma client_step_ok: "client_step s s' \<Longrightarrow> client_ok s \<Longrightarrow> client_ok s'"
proof (induction rule: client_step.induct)
  case (take k i k' held)
  then show ?case
    using getIdleConn_pools [OF take(1)] one_place_new [of "pooled k + held" "fresh k"]
    by (auto simp: client_ok_def)
next
  case (take_error k e k' held)
  then show ?case using getIdleConn_pools [OF take_error(1)] by (auto simp: client_ok_def)
next
  case (conn k held i c)
  then show ?case by (simp add: client_ok_def pooled_def watch_ok_def)
next
  case (call_end i held r p e k kind)
  have "pooled (snd (dial_done kind i r k)) + (held - {#i#}) = pooled k + held"
    using dial_done_pools(1) [OF call_end(2)] call_end(1) by simp
  then show ?case
    using call_end(3) dial_done_pools(2) [OF call_end(2)] dial_done_watch by (simp add: client_ok_def)
next
  case (ping_end i held k)
  then show ?case by (auto simp: client_ok_def intro: one_place_mono)
next
  case (refill k held)
  let ?k = "k\<lparr>pending_adds := pending_adds k - 1\<rparr>"
  have f: "pooled ?k = pooled k" "fresh ?k = fresh k" "watch_ok ?k = watch_ok k"
    by (simp_all add: pooled_def watch_ok_def)
  show ?case
  proof (cases "pending_adds k = 0")
    case True
    then show ?thesis using refill by (simp add: run_pending_add_def)
  next
    case False
    then show ?thesis
      using refill f addIdle_watch [of ?k] one_place_new [of "pooled k + held" "fresh k"]
      by (cases rule: addIdle_pools [of ?k]) (auto simp: run_pending_add_def client_ok_def)
  qed
next
  case (watcher n k r k' held)
  then show ?case using run_watcher_pools [OF watcher(1)] run_watcher_watch [OF watcher(1)] by (simp add: client_ok_def)
next
  case (user k held i pi)
  then show ?case by (simp add: client_ok_def user_close_def pooled_def watch_ok_def)
next
  case (stop k held)
  then show ?case by (simp add: client_ok_def client_cancel_def pooled_def watch_ok_def)
next
  case (poll k held)
  have "pooled (snd (checkConns k)) \<subseteq># pooled k" "fresh (snd (checkConns k)) = fresh k" "watch_ok (snd (checkConns k))"
    using poll(1) by (simp_all add: pooled_def watch_ok_def closing_frames pool_new_def)
  then show ?case using poll(2) by (auto simp: client_ok_def intro: one_place_mono mset_subset_eq_mono_add)
next
  case (abort k held)
  have "pooled (snd (shutdown_abort k)) \<subseteq># pooled k" "fresh (snd (shutdown_abort k)) = fresh k"
    "watch_ok (snd (shutdown_abort k))"
    using abort(1) shutdown_abort_frame [of k] by (simp_all add: watch_ok_def)
  then show ?case using abort(2) by (auto simp: client_ok_def intro: one_place_mono mset_subset_eq_mono_add)
qed

section \<open>Reachable states\<close>

lemma add_idle_ok: "client_ok (k, {#}) \<Longrightarrow> client_ok (add_idle n k, {#})"
proof (induction n arbitrary: k)
  case (Suc n)
  have "client_ok (snd (addIdleConn k), {#})"
    using Suc.prems addIdle_watch [of k] one_place_new [of "pooled k" "fresh k"]
    by (cases rule: addIdle_pools [of k]) (auto simp: client_ok_def)
  then show ?case using Suc.IH by simp
qed simp

lemma NewClient_ok: "client_ok (NewClient op ds, {#})"
proof -
  have "client_ok (bare_client op ds, {#})"
    by (simp add: client_ok_def bare_client_def one_place_def pooled_def pool_new_def watch_ok_def)
  then show ?thesis unfolding NewClient_def by (rule add_idle_ok)
qed

definition client_reachable :: "client_state \<Rightarrow> bool" where
  "client_reachable s \<longleftrightarrow> (\<exists>op ds. client_step\<^sup>*\<^sup>* (NewClient op ds, {#}) s)"

lemma client_reachable_ok: "client_reachable s \<Longrightarrow> client_ok s"
proof -
  assume "client_reachable s"
  then obtain op ds where "client_step\<^sup>*\<^sup>* (NewClient op ds, {#}) s" by (auto simp: client_reachable_def)
  then show ?thesis
    by (induction rule: rtranclp_induct) (auto intro: NewClient_ok client_step_ok)
qed

lemma client_reachable_new: "client_reachable (NewClient op ds, {#})"
  by (auto simp: client_reachable_def)

lemma client_reachable_step: "client_reachable s \<Longrightarrow> client_step s s' \<Longrightarrow> client_reachable s'"
  by (auto simp: client_reachable_def intro: rtranclp.rtrancl_into_rtrancl)

section \<open>Single calls\<close>

lemma getIdleConn_last:
  assumes "pool_data (idleConns k) = xs @ [i]"
  shows "\<exists>n. getIdleConn k = (Ok i, k\<lparr>idleConns := (idleConns k)\<lparr>pool_data := xs\<rparr>, pending_adds := n\<rparr>)"
proof -
  have "pool_take_or None (idleConns k) = (Some i, (idleConns k)\<lparr>pool_data := xs\<rparr>)"
    using assms by (simp add: pool_take_or_def)
  then show ?thesis
    by (cases "pool_len ((idleConns k)\<lparr>pool_data := xs\<rparr>) * 2 < MaxIdleConn k")
      (auto simp: getIdleConn_def, metis Client.surjective Client.update_convs(10))
qed

lemma dial_not_idle:
  assumes "\<not> locked c" and "status c \<noteq> StatusIdle"
  shows "DialContext v before ev between p t c = (Err (StatusError (status c)), c)"
    and "ListenPacketContext v before ev between p t c = (Err (StatusError (status c)), c)"
  using assms
  by (simp_all add: DialContext_def ListenPacketContext_def dial_start_def listen_start_def open_start_def
      with_lock_def sbind_def)

lemma pipe_close_returns:
  assumes "client_reachable (k, held)" and "\<not> cancelled k" and "n < length (watchers k)"
    and "watchers k ! n = (i, p, kind)"
  shows "\<exists>k'. run_watcher n (user_close i p k) = (Ok (), k') \<and>
    mset (pool_data (idleConns k')) = add_mset i (mset (pool_data (idleConns k))) \<and>
    pooled k' = pooled k \<and> heap k' = heap k"
proof -
  let ?k = "user_close i p k"
  have "watch_ok k" using client_reachable_ok [OF assms(1)] by (simp add: client_ok_def)
  then have "watch_ok ?k" "\<not> cancelled ?k" "n < length (watchers ?k)" "watchers ?k ! n = (i, p, kind)"
    "pipe_closed i p ?k" "pooled ?k = pooled k" "idleConns ?k = idleConns k" "heap ?k = heap k"
    using assms(2-4) by (simp_all add: user_close_def watch_ok_def pipe_closed_def pooled_def)
  then show ?thesis using run_watcher_runs [of ?k n i p kind] by auto
qed

lemma dead_conn_sticks:
  assumes "pool_data (idleConns k) = xs @ [i]" and "status (heap k i) \<noteq> StatusIdle"
    and "\<not> locked (heap k i)" and "\<not> cancelled k"
  shows "\<exists>k1 k2.
    client_DialContext v before ev between p t k = (Err (StatusError (status (heap k i))), k1) \<and>
    client_ListenPacketContext v before ev between p t k = (Err (StatusError (status (heap k i))), k2) \<and>
    {k1, k2} \<subseteq> {k'. pool_data (idleConns k') = xs @ [i] \<and> heap k' = heap k \<and> \<not> cancelled k' \<and>
      streamConns k' = streamConns k \<and> packetConns k' = packetConns k}"
proof -
  obtain n where g: "getIdleConn k = (Ok i, k\<lparr>idleConns := (idleConns k)\<lparr>pool_data := xs\<rparr>, pending_adds := n\<rparr>)"
    using getIdleConn_last [OF assms(1)] by auto
  show ?thesis
    using assms(4)
    by (simp add: client_DialContext_def client_ListenPacketContext_def over_idle_conn_def sbind_def g
        dial_not_idle [OF assms(3,2)] dial_done_simps finish_call_def pool_put_def)
qed

lemma dial_success:
  assumes "pool_data (idleConns k) = xs @ [i]" and "\<not> cancelled k" and "ready (heap k i)"
    and "status (heap k i) = StatusIdle"
  shows "\<exists>p k'. client_DialContext v [InText (reply_true la)] Replied [] q t k = (Ok p, k') \<and>
    localAddr p = split_addr la \<and> pool_data (idleConns k') = xs \<and>
    pool_data (streamConns k') = pool_data (streamConns k) @ [i] \<and> packetConns k' = packetConns k \<and>
    watchers k' = watchers k @ [(i, pipe_id p, StreamPool)] \<and>
    status (heap k' i) = StatusStream \<and> streamConn (heap k' i) = Some (Pipe (pipe_id p)) \<and>
    ws_out (heap k' i) = ws_out (heap k i) @ [Text (open_cmd cmdOpenStream q t)] \<and>
    (heap k')(i := heap k i) = heap k"
proof -
  obtain n where g: "getIdleConn k = (Ok i, k\<lparr>idleConns := (idleConns k)\<lparr>pool_data := xs\<rparr>, pending_adds := n\<rparr>)"
    using getIdleConn_last [OF assms(1)] by auto
  let ?p = "\<lparr>pipe_id = Suc (next_id (heap k i)), localAddr = split_addr la\<rparr>"
  obtain c where dc: "DialContext (client_env v) [InText (reply_true la)] Replied [] q t (heap k i) = (Ok ?p, c)"
    "status c = StatusStream" "streamConn c = Some (Pipe (pipe_id ?p))"
    "ws_out c = ws_out (heap k i) @ [Text (open_cmd cmdOpenStream q t)]"
    using assms(3,4) by (simp add: DialContext_def link_eval ready_def)
  show ?thesis
    using assms(2) dc
    by (simp add: client_DialContext_def over_idle_conn_def sbind_def g dial_done_simps finish_call_def pool_put_def)
qed

section \<open>Properties\<close>

definition some_opts :: client_opts where
  "some_opts = \<lparr>Transport = None, WebsocketOpts = None, cachedOpts = None\<rparr>"

text \<open>A new client, and the client after a dial or a listen has put connection 4 in state \<open>c\<close>.\<close>

definition new_client :: Client where
  "new_client = NewClient some_opts []"

definition some_pipe :: ConnPipe where
  "some_pipe = \<lparr>pipe_id = 1, localAddr = \<lparr>sa_network = ''tcp'', sa_addr = ''10.0.0.1:80''\<rparr>\<rparr>"

definition taken_client :: Client where
  "taken_client = snd (getIdleConn new_client)"

definition active_client :: "pool_kind \<Rightarrow> Conn \<Rightarrow> Client" where
  "active_client kind c =
     snd (dial_done kind 4 (Ok some_pipe) (taken_client\<lparr>heap := (heap taken_client)(4 := c)\<rparr>))"

lemma new_client_facts:
  "pool_data (idleConns new_client) = [0, 1, 2, 3, 4]" "heap new_client = (\<lambda>_. WrapConn)"
  "cancelled new_client = False" "streamConns new_client = pool_new" "packetConns new_client = pool_new"
  "watchers new_client = []" "MaxIdleConn new_client = 5" "pending_adds new_client = 0" "fresh new_client = 5"
  by (simp_all add: new_client_def NewClient_def bare_client_def some_opts_def addIdleConn_def newConn_def
      sbind_def Let_def pool_put_def pool_new_def eval_nat_numeral fun_upd_def)

lemma taken_client_eq:
  "getIdleConn new_client = (Ok 4, new_client\<lparr>idleConns := (idleConns new_client)\<lparr>pool_data := [0, 1, 2, 3]\<rparr>\<rparr>)"
  by (simp add: getIdleConn_def pool_take_or_def pool_len_def new_client_facts)

lemma active_client_facts:
  "watchers (active_client kind c) = [(4, 1, kind)]" "cancelled (active_client kind c) = False"
  "heap (active_client kind c) 4 = c" "pool_data (idleConns (active_client kind c)) = [0, 1, 2, 3]"
  by (cases kind; simp add: active_client_def taken_client_def taken_client_eq dial_done_simps
      finish_call_def new_client_facts some_pipe_def)+

lemma active_client_reachable: "client_reachable (active_client kind c, {#})"
proof -
  have "client_step (new_client, {#}) (taken_client, {#4#})"
    using client_step.take [OF taken_client_eq, of "{#}"] by (simp add: taken_client_def taken_client_eq)
  then have "client_reachable (taken_client, {#4#})"
    using client_reachable_new client_reachable_step unfolding new_client_def by blast
  then have "client_reachable (taken_client\<lparr>heap := (heap taken_client)(4 := c)\<rparr>, {#4#})"
    using client_step.conn client_reachable_step by blast
  moreover have "client_step (taken_client\<lparr>heap := (heap taken_client)(4 := c)\<rparr>, {#4#})
      (active_client kind c, {#4#} - {#4#})"
    unfolding active_client_def by (rule client_step.call_end) simp_all
  ultimately show ?thesis using client_reachable_step by fastforce
qed



text \<open>C24: When the user closes a pipe its connection comes back. In every reachable state of a
  client that is not shutting down, a goroutine waiting for a pipe that is closed finds its
  connection in the active pool, so the panic of \<open>PutFrom\<close> is impossible, and moves it to the
  idle pool.\<close>

theorem client_pipe_close_returns:
  assumes "client_reachable (k, held)" and "\<not> cancelled k" and "n < length (watchers k)"
    and "watchers k ! n = (i, p, kind)"
  shows "\<exists>k'. run_watcher n (user_close i p k) = (Ok (), k') \<and>
    mset (pool_data (idleConns k')) = add_mset i (mset (pool_data (idleConns k))) \<and>
    pooled k' = pooled k \<and> heap k' = heap k"
  using assms by (rule pipe_close_returns)

theorem client_pipe_close_returns_witness:
  "\<exists>k'. run_watcher 0 (user_close 4 1 (active_client StreamPool WrapConn)) = (Ok (), k') \<and>
    mset (pool_data (idleConns k')) = {#0, 1, 2, 3, 4#}"
  using client_pipe_close_returns [OF active_client_reachable, of StreamPool WrapConn 0 4 1 StreamPool]
  by (auto simp: active_client_facts add_mset_commute)

text \<open>A connection that is no longer idle blocks the client. If the connection last put into
  the idle pool is not in idle status, for example because it died there, every dial and every
  listen fails with a status error, puts the connection back on top and leaves the connection and
  the pool as they were, so the next call fails in the same way whatever else the pool holds.\<close>

theorem client_dead_conn_sticks:
  assumes "pool_data (idleConns k) = xs @ [i]" and "status (heap k i) \<noteq> StatusIdle"
    and "\<not> locked (heap k i)" and "\<not> cancelled k"
  shows "\<exists>k1 k2.
    client_DialContext v before ev between p t k = (Err (StatusError (status (heap k i))), k1) \<and>
    client_ListenPacketContext v before ev between p t k = (Err (StatusError (status (heap k i))), k2) \<and>
    {k1, k2} \<subseteq> {k'. pool_data (idleConns k') = xs @ [i] \<and> heap k' = heap k \<and> \<not> cancelled k' \<and>
      streamConns k' = streamConns k \<and> packetConns k' = packetConns k}"
  using assms by (rule dead_conn_sticks)

theorem client_dead_conn_sticks_witness:
  "\<exists>k1. client_DialContext (open_env ''tcp;la'') [] Replied [] ''tcp'' ''h:1''
      (new_client\<lparr>heap := (heap new_client)(4 := WrapConn\<lparr>status := StatusClosed\<rparr>)\<rparr>) =
      (Err (StatusError StatusClosed), k1) \<and> pool_data (idleConns k1) = [0, 1, 2, 3, 4]"
proof -
  let ?k = "new_client\<lparr>heap := (heap new_client)(4 := WrapConn\<lparr>status := StatusClosed\<rparr>)\<rparr>"
  have "pool_data (idleConns ?k) = [0, 1, 2, 3] @ [4]" "status (heap ?k 4) \<noteq> StatusIdle"
    "\<not> locked (heap ?k 4)" "\<not> cancelled ?k" "status (heap ?k 4) = StatusClosed"
    by (simp_all add: new_client_facts WrapConn_def)
  then show ?thesis
    using client_dead_conn_sticks [of ?k "[0, 1, 2, 3]" 4 "open_env ''tcp;la''" "[]" Replied "[]" "''tcp''" "''h:1''"]
    by auto
qed

text \<open>A closed packet pipe poisons the pool. Closing the pipe sends no command, so the
  connection comes back in packet status; it is the next one that every call takes, and all of them
  fail.\<close>

theorem client_packet_conn_poisons:
  assumes "client_reachable (k, held)" and "\<not> cancelled k" and "n < length (watchers k)"
    and "watchers k ! n = (i, p, PacketPool)" and "status (heap k i) = StatusPacket" and "\<not> locked (heap k i)"
  shows "\<exists>k' k1. run_watcher n (user_close i p k) = (Ok (), k') \<and> ws_out (heap k' i) = ws_out (heap k i) \<and>
    client_DialContext v before ev between q t k' = (Err (StatusError StatusPacket), k1) \<and>
    pool_data (idleConns k1) = pool_data (idleConns k')"
proof -
  let ?k = "user_close i p k"
  obtain k' where k': "run_watcher n ?k = (Ok (), k')" "heap k' = heap k"
    using pipe_close_returns [OF assms(1-4)] by auto
  obtain d s where "pool_put_from i (idleConns k) (packetConns k) = (Ok (d, s) :: (conn_error, _) outcome)"
    "idleConns k' = d" "\<not> cancelled k'"
    using k'(1) assms(2-4)
    by (auto simp: run_watcher_def user_close_def pipe_closed_def Let_def split: outcome.splits)
  then have "idleConns k' = pool_put i (idleConns k)"
    by (auto simp: pool_put_from_def split: prod.splits if_splits)
  then have "pool_data (idleConns k') = pool_data (idleConns k) @ [i]"
    by (simp add: pool_put_def)
  then show ?thesis
    using dead_conn_sticks [of k' _ i v before ev between q t] k' assms(5,6) \<open>\<not> cancelled k'\<close> by auto
qed

theorem client_packet_conn_poisons_witness:
  "\<exists>k' k1. run_watcher 0 (user_close 4 1 (active_client PacketPool (WrapConn\<lparr>status := StatusPacket\<rparr>))) = (Ok (), k') \<and>
    client_DialContext (open_env ''tcp;la'') [] Replied [] ''tcp'' ''h:1'' k' = (Err (StatusError StatusPacket), k1)"
proof -
  let ?c = "WrapConn\<lparr>status := StatusPacket\<rparr>"
  have c: "status ?c = StatusPacket" "\<not> locked ?c" by (simp_all add: WrapConn_def)
  show ?thesis
    using client_packet_conn_poisons [OF active_client_reachable, of PacketPool ?c 0 4 1 "open_env ''tcp;la''" "[]" Replied "[]"
        "''tcp''" "''h:1''"] c
    by (auto simp: active_client_facts)
qed

text \<open>A dial over a healthy connection. The client takes the connection last put into the
  idle pool, sends one open command over it and, when the server's positive reply arrives, returns
  a pipe with the address of that reply; the connection is then in the stream pool, in stream
  status, with a goroutine waiting for the pipe, and the other connections are where they were.\<close>

theorem client_dial_success:
  assumes "pool_data (idleConns k) = xs @ [i]" and "\<not> cancelled k" and "ready (heap k i)"
    and "status (heap k i) = StatusIdle"
  shows "\<exists>p k'. client_DialContext v [InText (reply_true la)] Replied [] q t k = (Ok p, k') \<and>
    localAddr p = split_addr la \<and> pool_data (idleConns k') = xs \<and>
    pool_data (streamConns k') = pool_data (streamConns k) @ [i] \<and> packetConns k' = packetConns k \<and>
    watchers k' = watchers k @ [(i, pipe_id p, StreamPool)] \<and>
    status (heap k' i) = StatusStream \<and> streamConn (heap k' i) = Some (Pipe (pipe_id p)) \<and>
    ws_out (heap k' i) = ws_out (heap k i) @ [Text (open_cmd cmdOpenStream q t)] \<and>
    (heap k')(i := heap k i) = heap k"
  using assms by (rule dial_success)

theorem client_dial_success_witness:
  "\<exists>p k'. client_DialContext (open_env ''tcp;la'') [InText (reply_true ''tcp;10.0.0.1:80'')] Replied [] ''tcp'' ''h:1'' new_client
      = (Ok p, k') \<and>
    localAddr p = \<lparr>sa_network = ''tcp'', sa_addr = ''10.0.0.1:80''\<rparr> \<and>
    pool_data (streamConns k') = [4] \<and> status (heap k' 4) = StatusStream"
proof -
  have "ready WrapConn" "status WrapConn = StatusIdle" by (simp_all add: ready_def WrapConn_def)
  moreover have "split_addr ''tcp;10.0.0.1:80'' = \<lparr>sa_network = ''tcp'', sa_addr = ''10.0.0.1:80''\<rparr>"
    by code_simp
  ultimately show ?thesis
    using client_dial_success [of new_client "[0, 1, 2, 3]" 4 "open_env ''tcp;la''" "''tcp;10.0.0.1:80''" "''tcp''" "''h:1''"]
    by (auto simp: new_client_facts pool_new_def)
qed

text \<open>A ping loses its connection. Whatever its outcome, \<open>Ping\<close> takes the connection last put
  into the idle pool and puts it nowhere: it is in no pool afterwards, and a successful ping leaves
  it open.\<close>

theorem client_ping_leaks:
  assumes "pool_data (idleConns k) = xs @ [i]"
  shows "\<exists>r k'. client_Ping res k = (r, k') \<and> pool_data (idleConns k') = xs \<and>
    streamConns k' = streamConns k \<and> packetConns k' = packetConns k \<and>
    (res = None \<longrightarrow> r = Ok () \<and> heap k' = heap k)"
proof -
  obtain n where g: "getIdleConn k = (Ok i, k\<lparr>idleConns := (idleConns k)\<lparr>pool_data := xs\<rparr>, pending_adds := n\<rparr>)"
    using getIdleConn_last [OF assms] by auto
  show ?thesis
    by (cases res) (simp_all add: client_Ping_def sbind_def g Ping_def close_on_err_def)
qed

section \<open>Shutting down\<close>

definition no_active :: "Client \<Rightarrow> bool" where
  "no_active k \<longleftrightarrow> pool_data (streamConns k) = [] \<and> pool_data (packetConns k) = []"

text \<open>The states in which \<open>Shutdown\<close> would poll if no poll ended it.\<close>

fun polls :: "(Client \<Rightarrow> Client) list \<Rightarrow> Client \<Rightarrow> Client list" where
  "polls [] k = [k]"
| "polls (f # ps) k = k # polls ps (f (snd (checkConns k)))"

lemma polls_not_Nil [simp]: "polls ps k \<noteq> []"
  by (cases ps) simp_all

text \<open>The poll at which it stops: the first that finds no active connection, or the last one.\<close>

definition last_poll :: "Client list \<Rightarrow> Client" where
  "last_poll ss = (case find no_active ss of Some s \<Rightarrow> s | None \<Rightarrow> last ss)"

lemma last_poll_simps:
  "last_poll [k] = k" "no_active k \<Longrightarrow> last_poll (k # ss) = k"
  "\<not> no_active k \<Longrightarrow> ss \<noteq> [] \<Longrightarrow> last_poll (k # ss) = last_poll ss"
  by (simp_all add: last_poll_def split: option.split)

definition all_closed :: "nat multiset \<Rightarrow> Client \<Rightarrow> bool" where
  "all_closed M k \<longleftrightarrow> (\<forall>i. i \<in># M \<longrightarrow> status (heap k i) = StatusClosed)"

lemma close_idle_closes:
  assumes "unlocked k"
  obtains k' where "close_idle k = (Ok (), k')" "unlocked k'" "idleConns k' = pool_new"
    "streamConns k' = streamConns k" "packetConns k' = packetConns k"
    "\<And>i. i \<in> set (pool_data (idleConns k)) \<or> status (heap k i) = StatusClosed \<Longrightarrow> status (heap k' i) = StatusClosed"
proof -
  have "unlocked (k\<lparr>idleConns := pool_new\<rparr>)" using assms by (simp add: unlocked_def)
  from close_list_closes [OF this, of "pool_data (idleConns k)"] obtain k' where
    k': "close_list (pool_data (idleConns k)) (k\<lparr>idleConns := pool_new\<rparr>) = (Ok (), k')" "unlocked k'"
    "\<forall>i. i \<in> set (pool_data (idleConns k)) \<or> status (heap k i) = StatusClosed \<longrightarrow> status (heap k' i) = StatusClosed"
    by auto
  then have "close_idle k = (Ok (), k')" by (simp add: close_idle_def pool_clear_eq)
  moreover from this obtain h where "k' = k\<lparr>idleConns := pool_new, heap := h\<rparr>"
    using closing_pools(1) [of k] by auto
  ultimately show ?thesis using k' by (intro that [of k']) (simp, simp, simp, simp, simp, blast)
qed

lemma shutdown_abort_closes:
  assumes "unlocked k"
  obtains k' where "shutdown_abort k = (Ok (), k')" "pooled k' = {#}" "all_closed (pooled k) k'"
    "\<And>i. status (heap k i) = StatusClosed \<Longrightarrow> status (heap k' i) = StatusClosed"
proof -
  from assms obtain k1 where 1: "close_idle k = (Ok (), k1)" "unlocked k1" "idleConns k1 = pool_new"
    "streamConns k1 = streamConns k" "packetConns k1 = packetConns k"
    "\<And>i. i \<in> set (pool_data (idleConns k)) \<or> status (heap k i) = StatusClosed \<Longrightarrow> status (heap k1 i) = StatusClosed"
    using close_idle_closes by metis
  from 1(2) have "unlocked (k1\<lparr>streamConns := pool_new\<rparr>)" by (simp add: unlocked_def)
  from close_list_closes [OF this, of "pool_data (streamConns k1)"] obtain k2 where
    k2: "close_streams k1 = (Ok (), k2)" "unlocked k2"
    "\<And>i. i \<in> set (pool_data (streamConns k)) \<or> status (heap k1 i) = StatusClosed \<Longrightarrow> status (heap k2 i) = StatusClosed"
    using 1(4) by (auto simp: close_streams_def pool_clear_eq)
  obtain h2 where h2: "k2 = k1\<lparr>streamConns := pool_new, heap := h2\<rparr>"
    using closing_pools(2) [of k1] k2(1) by auto
  from k2(2) have "unlocked (k2\<lparr>packetConns := pool_new\<rparr>)" by (simp add: unlocked_def)
  from close_list_closes [OF this, of "pool_data (packetConns k2)"] obtain k3 where
    k3: "close_packets k2 = (Ok (), k3)"
    "\<And>i. i \<in> set (pool_data (packetConns k)) \<or> status (heap k2 i) = StatusClosed \<Longrightarrow> status (heap k3 i) = StatusClosed"
    using 1(5) h2 by (auto simp: close_packets_def pool_clear_eq)
  obtain h3 where h3: "k3 = k2\<lparr>packetConns := pool_new, heap := h3\<rparr>"
    using closing_pools(3) [of k2] k3(1) by auto
  show ?thesis
  proof (rule that)
    show "shutdown_abort k = (Ok (), k3)" using 1 k2 k3 by (simp add: shutdown_abort_def sbind_def)
    show "pooled k3 = {#}" using 1(3) h2 h3 by (simp add: pooled_def pool_new_def)
    show "all_closed (pooled k) k3" using 1(6) k2(3) k3(2) by (auto simp: all_closed_def pooled_def)
  qed (use 1(6) k2(3) k3(2) in blast)
qed

text \<open>One poll: it closes the idle connections, and goes on if another one is active.\<close>

lemma checkConns_polls:
  assumes "unlocked k"
  obtains k' where "checkConns k = (Ok (no_active k), k')" "unlocked k'" "idleConns k' = pool_new"
    "streamConns k' = streamConns k" "packetConns k' = packetConns k"
    "all_closed (mset (pool_data (idleConns k))) k'"
proof -
  from assms obtain k' where "close_idle k = (Ok (), k')" "unlocked k'" "idleConns k' = pool_new"
    "streamConns k' = streamConns k" "packetConns k' = packetConns k"
    "\<And>i. i \<in> set (pool_data (idleConns k)) \<or> status (heap k i) = StatusClosed \<Longrightarrow> status (heap k' i) = StatusClosed"
    using close_idle_closes by metis
  then show ?thesis
    by (intro that [of k']) (simp_all add: checkConns_def sbind_def no_active_def pool_len_def all_closed_def)
qed

lemma shutdown_loop_ends:
  assumes "unlocked k" and "\<forall>f\<in>set ps. \<forall>k. unlocked k \<longrightarrow> unlocked (f k)"
  shows "\<exists>k'. shutdown_loop ps e k = (if no_active (last_poll (polls ps k)) then Ok () else Err e, k') \<and>
    pooled k' = {#} \<and> all_closed (pooled (last_poll (polls ps k))) k'"
  using assms
proof (induction ps arbitrary: k)
  case Nil
  from Nil(1) obtain k1 where 1: "checkConns k = (Ok (no_active k), k1)" "unlocked k1" "idleConns k1 = pool_new"
    "streamConns k1 = streamConns k" "packetConns k1 = packetConns k"
    "all_closed (mset (pool_data (idleConns k))) k1"
    by (rule checkConns_polls)
  obtain k2 where 2: "shutdown_abort k1 = (Ok (), k2)" "pooled k2 = {#}" "all_closed (pooled k1) k2"
    "\<And>i. status (heap k1 i) = StatusClosed \<Longrightarrow> status (heap k2 i) = StatusClosed"
    using shutdown_abort_closes [OF 1(2)] by metis
  have "no_active k \<Longrightarrow> pooled k1 = {#} \<and> all_closed (pooled k) k1"
    using 1(3-6) by (simp add: no_active_def pooled_def pool_new_def)
  moreover have "all_closed (pooled k) k2"
    using 1(3-6) 2(3,4) by (auto simp: all_closed_def pooled_def)
  ultimately show ?case
    using 1(1) 2(1,2) by (cases "no_active k") (simp_all add: sbind_def sret_def sfail_def last_poll_simps)
next
  case (Cons f ps)
  from Cons.prems(1) obtain k1 where 1: "checkConns k = (Ok (no_active k), k1)" "unlocked k1" "idleConns k1 = pool_new"
    "streamConns k1 = streamConns k" "packetConns k1 = packetConns k"
    "all_closed (mset (pool_data (idleConns k))) k1"
    by (rule checkConns_polls)
  show ?case
  proof (cases "no_active k")
    case True
    then have "pooled k1 = {#} \<and> all_closed (pooled k) k1"
      using 1(3-6) by (simp add: no_active_def pooled_def pool_new_def)
    then show ?thesis using True 1(1) by (simp add: sbind_def last_poll_simps)
  next
    case False
    have "unlocked (f k1)" using Cons.prems(2) 1(2) by simp
    from Cons.IH [OF this] Cons.prems(2) show ?thesis
      using False 1(1) by (simp add: sbind_def last_poll_simps)
  qed
qed



section \<open>Options\<close>

text \<open>The transport of the client does not replace a missing one of the user's HTTP client, and what
  the code calls a copy of the user's options is the user's own struct, which is changed.\<close>

lemma ws_opts_ignores_transport:
  assumes "WebsocketOpts c = Some u" and "HTTPClient u = Some h" and "hc_Transport h = None"
  shows "\<exists>u'. getWebsocketOpts c = (u', c\<lparr>cachedOpts := Some u', WebsocketOpts := Some u'\<rparr>) \<and>
    HTTPClient u' = Some (h\<lparr>hc_Transport := Some DefaultTransport\<rparr>)"
  using assms by (cases "cachedOpts c") (simp_all add: getWebsocketOpts_def fill_opts_def Let_def)

end
