(* ===== verification/Ip_Rule.thy ===== *)
theory Ip_Rule
  imports Netip_Text
begin

text \<open>
  The IP rules of \<open>iprule.go\<close>: a rule is a prefix or its complement, a rule set a list of
  rules with a text form of one rule per line. A nil \<open>*IPRuleSet\<close> is \<open>None\<close>.
\<close>

section \<open>Rules\<close>

record IPRule =
  rprefix :: netip_prefix
  rnot :: bool

datatype rule_error = RuleEOF | RuleParse string

definition rule_contains :: "IPRule \<Rightarrow> netip_addr \<Rightarrow> bool" where
  "rule_contains r ip \<longleftrightarrow> pfx_contains (rprefix r) (unmap ip) \<noteq> rnot r"

text \<open>The part of \<open>UnmarshalText\<close> after the exclamation mark, on a text that is not empty.\<close>

definition unmarshal_prefix :: "string \<Rightarrow> rule_error + netip_prefix" where
  "unmarshal_prefix buf =
     (if last_index_byte buf (CHR ''/'') = None then
        (case parse_addr buf of
           None \<Rightarrow> Inl (RuleParse buf)
         | Some addr \<Rightarrow>
             (case addr_prefix addr (int (bit_len addr)) of
                None \<Rightarrow> Inl (RuleParse buf)
              | Some p \<Rightarrow> Inr p))
      else (case parse_prefix buf of
              None \<Rightarrow> Inl (RuleParse buf)
            | Some p \<Rightarrow> Inr p))"

definition rule_unmarshal :: "string \<Rightarrow> rule_error + IPRule" where
  "rule_unmarshal buf =
     (if buf = [] then Inl RuleEOF
      else let neg = (hd buf = CHR ''!'')
           in if neg \<and> length buf = 1 then Inl RuleEOF
              else case unmarshal_prefix (if neg then tl buf else buf) of
                     Inl e \<Rightarrow> Inl e
                   | Inr p \<Rightarrow> Inr \<lparr>rprefix = p, rnot = neg\<rparr>)"

definition ParseIPRule :: "string \<Rightarrow> rule_error + IPRule" where
  "ParseIPRule text = rule_unmarshal text"

definition rule_marshal :: "IPRule \<Rightarrow> string" where
  "rule_marshal r =
     (let buf = (if is_single_ip (rprefix r) then addr_marshal (pfx_ip (rprefix r))
                 else pfx_marshal (rprefix r))
      in if rnot r then CHR ''!'' # buf else buf)"

section \<open>Rule sets\<close>

record IPRuleSet =
  rules :: "IPRule list"

definition NewIPRuleSet :: IPRuleSet where
  "NewIPRuleSet = \<lparr>rules = []\<rparr>"

definition NewIPRuleSetFrom :: "IPRule list \<Rightarrow> IPRuleSet" where
  "NewIPRuleSetFrom rs = \<lparr>rules = rs\<rparr>"

fun contains_loop :: "IPRule list \<Rightarrow> netip_addr \<Rightarrow> bool \<Rightarrow> bool" where
  "contains_loop [] ip ok = ok"
| "contains_loop (r # rs) ip ok =
     (if rnot r then (if rule_contains r ip then False else contains_loop rs ip ok)
      else if \<not> ok then contains_loop rs ip (rule_contains r ip)
      else contains_loop rs ip ok)"

definition set_contains :: "IPRuleSet option \<Rightarrow> netip_addr \<Rightarrow> bool" where
  "set_contains s ip = (case s of None \<Rightarrow> False | Some s \<Rightarrow> contains_loop (rules s) ip False)"

definition set_add :: "IPRuleSet \<Rightarrow> IPRule \<Rightarrow> IPRuleSet \<times> bool" where
  "set_add s r =
     (if List.member (rules s) r then (s, False)
      else (s\<lparr>rules := rules s @ [r]\<rparr>, True))"

fun rule_index :: "IPRule list \<Rightarrow> IPRule \<Rightarrow> nat option" where
  "rule_index [] r = None"
| "rule_index (v # vs) r = (if v = r then Some 0 else map_option Suc (rule_index vs r))"

definition set_remove :: "IPRuleSet \<Rightarrow> IPRule \<Rightarrow> IPRuleSet \<times> bool" where
  "set_remove s r =
     (case rule_index (rules s) r of
        Some i \<Rightarrow> (s\<lparr>rules := take i (rules s) @ drop (i + 1) (rules s)\<rparr>, True)
      | None \<Rightarrow> (s, False))"

definition set_rules :: "IPRuleSet option \<Rightarrow> IPRule list" where
  "set_rules s = (case s of None \<Rightarrow> [] | Some s \<Rightarrow> rules s)"

datatype rule_set_error = RuleSetError nat rule_error

text \<open>The scanning loop of \<open>IPRuleSet.UnmarshalText\<close>, line \<open>i\<close> on, with the rules and the
  errors so far.\<close>

fun unmarshal_loop ::
  "nat \<Rightarrow> string list \<Rightarrow> IPRule list \<Rightarrow> rule_set_error list \<Rightarrow> IPRule list \<times> rule_set_error list" where
  "unmarshal_loop i [] l errs = (l, errs)"
| "unmarshal_loop i (line # lines) l errs =
     (let bts = trim_space line
      in if 0 < length bts \<and> hd bts \<noteq> CHR ''#'' then
           (case rule_unmarshal bts of
              Inl e \<Rightarrow> unmarshal_loop (i + 1) lines l (errs @ [RuleSetError i e])
            | Inr r \<Rightarrow> unmarshal_loop (i + 1) lines (l @ [r]) errs)
         else unmarshal_loop (i + 1) lines l errs)"

definition set_unmarshal :: "IPRuleSet \<Rightarrow> string \<Rightarrow> IPRuleSet \<times> rule_set_error list" where
  "set_unmarshal s buf =
     (let l = (if length (rules s) \<noteq> 0 then [] else rules s);
          (l', errs) = unmarshal_loop 0 (scan_lines buf) l []
      in (s\<lparr>rules := l'\<rparr>, errs))"

text \<open>\<open>ReadIPRuleSet\<close> on what \<open>io.ReadAll\<close> returned: its error, or the whole text.\<close>

datatype read_error = ReadFailed string | RulesFailed "rule_set_error list"

definition ReadIPRuleSet :: "string + string \<Rightarrow> IPRuleSet \<times> read_error option" where
  "ReadIPRuleSet input =
     (case input of
        Inl e \<Rightarrow> (NewIPRuleSet, Some (ReadFailed e))
      | Inr buf \<Rightarrow>
          (let (s, errs) = set_unmarshal NewIPRuleSet buf
           in (s, if errs = [] then None else Some (RulesFailed errs))))"

definition set_marshal :: "IPRuleSet \<Rightarrow> string" where
  "set_marshal s = concat (map (\<lambda>r. rule_marshal r @ [LF]) (rules s))"

section \<open>What a rule set contains\<close>

lemma contains_loop_iff:
  "contains_loop rs ip ok \<longleftrightarrow>
     (ok \<or> (\<exists>r\<in>set rs. \<not> rnot r \<and> rule_contains r ip)) \<and>
     (\<forall>r\<in>set rs. rnot r \<longrightarrow> \<not> rule_contains r ip)"
  by (induction rs arbitrary: ok) auto

lemma set_contains_iff:
  "set_contains (Some s) ip \<longleftrightarrow>
     (\<exists>r\<in>set (rules s). \<not> rnot r \<and> pfx_contains (rprefix r) (unmap ip)) \<and>
     (\<forall>r\<in>set (rules s). rnot r \<longrightarrow> pfx_contains (rprefix r) (unmap ip))"
  by (auto simp: set_contains_def contains_loop_iff rule_contains_def)

lemma set_contains_unmap: "set_contains s (unmap ip) = set_contains s ip"
  by (cases s) (simp add: set_contains_def, simp add: set_contains_iff)

section \<open>The rules as a collection\<close>

text \<open>The contract of \<open>Add\<close> and \<open>Remove\<close>, over the set of rules held.\<close>

locale rule_store =
  fixes add :: "'s \<Rightarrow> 'r \<Rightarrow> 's \<times> bool"
    and remove :: "'s \<Rightarrow> 'r \<Rightarrow> 's \<times> bool"
    and held :: "'s \<Rightarrow> 'r set"
    and inv :: "'s \<Rightarrow> bool"
  assumes add_held: "inv s \<Longrightarrow> held (fst (add s r)) = insert r (held s)"
    and add_flag: "inv s \<Longrightarrow> snd (add s r) \<longleftrightarrow> r \<notin> held s"
    and add_inv: "inv s \<Longrightarrow> inv (fst (add s r))"
    and remove_held: "inv s \<Longrightarrow> held (fst (remove s r)) = held s - {r}"
    and remove_flag: "inv s \<Longrightarrow> snd (remove s r) \<longleftrightarrow> r \<in> held s"
    and remove_inv: "inv s \<Longrightarrow> inv (fst (remove s r))"
begin

lemma add_remove:
  assumes "inv s" and "snd (add s r)"
  shows "held (fst (remove (fst (add s r)) r)) = held s"
  using assms by (simp add: remove_held add_inv add_held add_flag)

lemma add_twice:
  assumes "inv s"
  shows "\<not> snd (add (fst (add s r)) r) \<and> held (fst (add (fst (add s r)) r)) = held (fst (add s r))"
  using assms by (simp add: add_flag add_inv add_held)

end

lemma rule_index_None [simp]: "rule_index rs r = None \<longleftrightarrow> r \<notin> set rs"
  by (induction rs) auto

lemma rule_index_remove1:
  "rule_index rs r = Some i \<Longrightarrow> take i rs @ drop (i + 1) rs = remove1 r rs \<and> r \<in> set rs"
  by (induction rs arbitrary: i) (auto split: if_splits)

lemma set_remove_eq:
  "set_remove s r = (s\<lparr>rules := remove1 r (rules s)\<rparr>, r \<in> set (rules s))"
proof (cases "rule_index (rules s) r")
  case None
  then have "r \<notin> set (rules s)" by simp
  with None show ?thesis by (simp add: set_remove_def remove1_idem del: rule_index_None)
next
  case (Some i)
  then show ?thesis using rule_index_remove1 [OF Some] by (simp add: set_remove_def)
qed

interpretation ipset: rule_store set_add set_remove "\<lambda>s. set (rules s)" "\<lambda>s. distinct (rules s)"
  by unfold_locales (auto simp: set_add_def set_remove_eq)

section \<open>The text of a rule set\<close>

text \<open>What the lines of a text mean: the rules of the lines that parse, in order, and the
  errors of the others under their line number.\<close>

definition line_result :: "string \<Rightarrow> (rule_error + IPRule) option" where
  "line_result line =
     (let bts = trim_space line
      in if bts = [] \<or> hd bts = CHR ''#'' then None else Some (rule_unmarshal bts))"

definition rules_of_lines :: "string list \<Rightarrow> IPRule list" where
  "rules_of_lines ls = List.map_filter (\<lambda>l. case line_result l of Some (Inr r) \<Rightarrow> Some r | _ \<Rightarrow> None) ls"

fun errors_of_lines :: "nat \<Rightarrow> string list \<Rightarrow> rule_set_error list" where
  "errors_of_lines i [] = []"
| "errors_of_lines i (l # ls) =
     (case line_result l of Some (Inl e) \<Rightarrow> [RuleSetError i e] | _ \<Rightarrow> []) @ errors_of_lines (i + 1) ls"

lemma unmarshal_loop_eq:
  "unmarshal_loop i ls l errs = (l @ rules_of_lines ls, errs @ errors_of_lines i ls)"
  by (induction i ls l errs rule: unmarshal_loop.induct)
     (auto simp: rules_of_lines_def map_filter_simps line_result_def Let_def split: sum.splits)

lemma set_unmarshal_eq:
  "set_unmarshal s buf = (s\<lparr>rules := rules_of_lines (scan_lines buf)\<rparr>,
                          errors_of_lines 0 (scan_lines buf))"
  by (simp add: set_unmarshal_def unmarshal_loop_eq)

section \<open>A rule's text\<close>

definition rule_wf :: "IPRule \<Rightarrow> bool" where
  "rule_wf r \<longleftrightarrow> pfx_wf (rprefix r)"

lemma and_high_mask_full [simp]: "(w :: 'a::len word) AND high_mask (LENGTH('a)) = w"
  by (rule bit_word_eqI) (auto simp: high_mask_def bit_simps dest: bit_imp_le_length)

lemma addr_prefix_single:
  assumes "pfx_wf p" and "is_single_ip p"
  shows "addr_prefix (pfx_ip p) (int (bit_len (pfx_ip p))) = Some p"
proof -
  have b: "pfx_bits1 p = bit_len (pfx_ip p) + 1"
    using assms by (auto simp: is_single_ip_def pfx_wf_def pfx_valid_def pfx_bits_def)
  show ?thesis
  proof (cases "pfx_ip p")
    case ZeroAddr
    with assms show ?thesis by (simp add: pfx_wf_def)
  next
    case (V4 w)
    with b and_high_mask_full [of w] show ?thesis
      by (simp add: addr_prefix_def prefix_from_def bit_len_def without_zone_def)
  next
    case (V6 w z)
    then have "z = []" using assms by (simp add: pfx_wf_def has_zone_def)
    with V6 b and_high_mask_full [of w] show ?thesis
      by (simp add: addr_prefix_def prefix_from_def bit_len_def without_zone_def)
  qed
qed

definition prefix_text :: "netip_prefix \<Rightarrow> string" where
  "prefix_text p = (if is_single_ip p then addr_marshal (pfx_ip p) else pfx_marshal p)"

lemma unmarshal_prefix_text:
  assumes "pfx_wf p"
  shows "unmarshal_prefix (prefix_text p) = Inr p"
proof (cases "is_single_ip p")
  case True
  have a: "addr_marshal (pfx_ip p) = addr_string (pfx_ip p)"
    using assms by (auto simp: addr_marshal_def pfx_wf_def split: netip_addr.splits)
  have "CHR ''/'' \<notin> set (addr_string (pfx_ip p))"
    using assms by (intro slash_notin_addr) (simp_all add: pfx_wf_def)
  moreover have "parse_addr (addr_string (pfx_ip p)) = Some (pfx_ip p)"
    using assms by (intro parse_addr_string) (simp add: pfx_wf_def)
  ultimately show ?thesis
    using True assms a by (simp add: unmarshal_prefix_def prefix_text_def addr_prefix_single)
next
  case False
  have "CHR ''/'' \<in> set (pfx_marshal p)" using assms by (simp add: pfx_marshal_eq)
  then show ?thesis
    using False assms parse_prefix_marshal [OF assms]
    by (simp add: unmarshal_prefix_def prefix_text_def)
qed

text \<open>The characters of an address or prefix are printable ASCII, so a rule's line survives
  trimming and is not taken for a comment, and it is far shorter than the scanner's limit.\<close>

lemma digit_char_plain: "d < 16 \<Longrightarrow> plain_char (digit_char d)"
  by (auto simp: plain_char_def digit_char_def)

lemma set_addr_string:
  assumes "a \<noteq> ZeroAddr" and "\<not> has_zone a"
  shows "set (addr_string a) \<subseteq> digit_char ` {..<16} \<union> {CHR '':'', CHR ''.''}"
  using assms set_show4 set_show_v6
  by (fastforce simp: addr_string_def has_zone_def with_zone_text_def split: netip_addr.splits)

lemma prefix_text_eq:
  assumes "pfx_wf p"
  shows "prefix_text p = addr_string (pfx_ip p) @
    (if is_single_ip p then [] else CHR ''/'' # itoa (pfx_bits p))"
  using assms pfx_marshal_eq [OF assms]
  by (auto simp: prefix_text_def addr_marshal_def pfx_wf_def split: netip_addr.splits)

lemma set_prefix_text:
  assumes "pfx_wf p"
  shows "set (prefix_text p) \<subseteq> digit_char ` {..<16} \<union> {CHR '':'', CHR ''.'', CHR ''/''}"
proof -
  have "set (itoa (pfx_bits p)) \<subseteq> digit_char ` {..<16}" using set_show_base [of 10] by force
  moreover have "set (addr_string (pfx_ip p)) \<subseteq> digit_char ` {..<16} \<union> {CHR '':'', CHR ''.''}"
    using assms by (intro set_addr_string) (simp_all add: pfx_wf_def)
  ultimately show ?thesis using assms by (auto simp: prefix_text_eq)
qed

lemma prefix_text_plain:
  assumes "pfx_wf p" and "c \<in> set (prefix_text p)"
  shows "plain_char c" and "c \<noteq> CHR ''!''" and "c \<noteq> CHR ''#''"
proof -
  have c: "c \<in> digit_char ` {..<16} \<or> c = CHR '':'' \<or> c = CHR ''.'' \<or> c = CHR ''/''"
    using set_prefix_text [OF assms(1)] assms(2) by auto
  then show "plain_char c" by (auto simp: digit_char_plain) (simp_all add: plain_char_def)
  have "digit_val (CHR ''!'') = None" "digit_val (CHR ''#'') = None"
    by (simp_all add: digit_val_def)
  then show "c \<noteq> CHR ''!''" "c \<noteq> CHR ''#''" using c by auto
qed

lemma prefix_text_not_Nil: "pfx_wf p \<Longrightarrow> prefix_text p \<noteq> []"
proof -
  assume wf: "pfx_wf p"
  then have "parse_addr (addr_string (pfx_ip p)) \<noteq> None"
    using parse_addr_string [of "pfx_ip p"] by (simp add: pfx_wf_def)
  then have "addr_string (pfx_ip p) \<noteq> []" by (auto simp: parse_addr_def)
  then show ?thesis using wf by (simp add: prefix_text_eq)
qed

lemma length_ser: "length (ser gs) \<le> 5 * length gs"
proof (induction gs rule: ser.induct)
  case (2 g)
  have "unat g < 16 ^ Suc 3" using unat_group_less [of g] by simp
  then show ?case using length_show_base_16 [of "unat g" 3] by simp
next
  case (3 g h gs)
  have "unat g < 16 ^ Suc 3" using unat_group_less [of g] by simp
  then show ?case using length_show_base_16 [of "unat g" 3] 3 by simp
qed simp

lemma length_show6: "length (show6 w) \<le> 42"
proof (cases w rule: show6_cases)
  case full
  then show ?thesis using length_ser [of "split_word 8 w"] by simp
next
  case (run pre k post)
  have "length pre + k + length post = 8"
    using arg_cong [OF run(1), of length] by simp
  then show ?thesis using run length_ser [of pre] length_ser [of post] by simp
qed

lemma length_itoa: "n < 1000 \<Longrightarrow> length (itoa n) \<le> 3"
  using itoa_1 [of n] itoa_2 [of n] itoa_3 [of n] by (cases "n < 10"; cases "n < 100") auto

lemma length_show4: "length (show4 w) \<le> 15"
proof -
  obtain a b c d where s: "show4 w = itoa (unat (a :: byte)) @ CHR ''.'' # itoa (unat (b :: byte)) @
      CHR ''.'' # itoa (unat (c :: byte)) @ CHR ''.'' # itoa (unat (d :: byte))"
    by (rule show4_eq)
  have "length (itoa (unat (x :: byte))) \<le> 3" for x
    by (rule length_itoa) (rule less_trans [OF unat_byte_less], simp)
  from this [of a] this [of b] this [of c] this [of d] show ?thesis unfolding s by simp
qed

lemma length_prefix_text:
  assumes "pfx_wf p"
  shows "length (prefix_text p) \<le> 46"
proof -
  have "length (addr_string (pfx_ip p)) \<le> 42"
  proof (cases "pfx_ip p")
    case (V4 w)
    with length_show4 [of w] show ?thesis by (simp add: addr_string_def)
  next
    case (V6 w z)
    then have "z = []" using assms by (simp add: pfx_wf_def has_zone_def)
    with V6 length_show6 [of w] length_show4 [of "ucast w"] show ?thesis
      by (simp add: addr_string_def with_zone_text_def show_v6_def)
  qed (use assms in \<open>simp add: pfx_wf_def\<close>)
  moreover have "pfx_bits p < 1000"
    using assms by (auto simp: pfx_wf_def bit_len_def split: netip_addr.splits)
  then have "length (itoa (pfx_bits p)) \<le> 3" by (rule length_itoa)
  ultimately show ?thesis using assms by (simp add: prefix_text_eq)
qed

section \<open>Round trips\<close>

lemma rule_marshal_eq: "rule_marshal r = (if rnot r then CHR ''!'' # prefix_text (rprefix r)
    else prefix_text (rprefix r))"
  by (simp add: rule_marshal_def prefix_text_def)

lemma rule_roundtrip:
  assumes "rule_wf r"
  shows "rule_unmarshal (rule_marshal r) = Inr r"
proof -
  have wf: "pfx_wf (rprefix r)" using assms by (simp add: rule_wf_def)
  have "prefix_text (rprefix r) \<noteq> []" by (rule prefix_text_not_Nil [OF wf])
  moreover from this have "hd (prefix_text (rprefix r)) \<noteq> CHR ''!''"
    using prefix_text_plain(2) [OF wf, of "hd (prefix_text (rprefix r))"] by simp
  ultimately show ?thesis
    using unmarshal_prefix_text [OF wf]
    by (auto simp: rule_unmarshal_def rule_marshal_eq Let_def)
qed

lemma rule_marshal_text:
  assumes "rule_wf r"
  shows "rule_marshal r \<noteq> []" and "c \<in> set (rule_marshal r) \<Longrightarrow> plain_char c"
    and "hd (rule_marshal r) \<noteq> CHR ''#''" and "length (rule_marshal r) < MaxScanTokenSize"
proof -
  have wf: "pfx_wf (rprefix r)" using assms by (simp add: rule_wf_def)
  note ne = prefix_text_not_Nil [OF wf]
  show "rule_marshal r \<noteq> []" using ne by (simp add: rule_marshal_eq)
  show "plain_char c" if "c \<in> set (rule_marshal r)"
    using that prefix_text_plain(1) [OF wf, of c]
    by (auto simp: rule_marshal_eq plain_char_def split: if_splits)
  show "hd (rule_marshal r) \<noteq> CHR ''#''"
    using ne prefix_text_plain(3) [OF wf, of "hd (prefix_text (rprefix r))"]
    by (simp add: rule_marshal_eq)
  show "length (rule_marshal r) < MaxScanTokenSize"
    using length_prefix_text [OF wf] by (simp add: rule_marshal_eq MaxScanTokenSize_def)
qed

lemma line_result_marshal:
  assumes "rule_wf r"
  shows "line_result (dropCR (rule_marshal r)) = Some (Inr r)"
proof -
  note t = rule_marshal_text [OF assms]
  have "\<not> plain_char CR" by (simp add: plain_char_def)
  then have "last (rule_marshal r) \<noteq> CR" using t(1,2) last_in_set by metis
  then have "dropCR (rule_marshal r) = rule_marshal r" by (simp add: dropCR_def)
  moreover have "trim_space (rule_marshal r) = rule_marshal r"
    using t(1,2) by (intro trim_space_plain) auto
  ultimately show ?thesis
    using t rule_roundtrip [OF assms] by (simp add: line_result_def)
qed

lemma scan_lines_marshal:
  assumes "\<forall>r\<in>set rs. rule_wf r"
  shows "scan_lines (concat (map (\<lambda>r. rule_marshal r @ [LF]) rs) @ rest) =
         map (dropCR \<circ> rule_marshal) rs @ scan_lines rest"
  using assms
proof (induction rs)
  case Nil
  then show ?case by simp
next
  case (Cons r rs)
  have "\<not> plain_char LF" by (simp add: plain_char_def)
  then have "LF \<notin> set (rule_marshal r)" using Cons.prems rule_marshal_text(2) by (metis list.set_intros(1))
  then have "scan_lines (rule_marshal r @ LF # concat (map (\<lambda>r. rule_marshal r @ [LF]) rs) @ rest) =
      dropCR (rule_marshal r) # scan_lines (concat (map (\<lambda>r. rule_marshal r @ [LF]) rs) @ rest)"
    using Cons.prems rule_marshal_text(4) by (intro scan_lines_line) simp_all
  with Cons show ?case by simp
qed

lemma lines_of_marshalled:
  assumes "\<forall>r\<in>set rs. rule_wf r"
  shows "rules_of_lines (map (dropCR \<circ> rule_marshal) rs) = rs"
    and "errors_of_lines i (map (dropCR \<circ> rule_marshal) rs) = []"
  using assms
  by (induction rs arbitrary: i)
     (auto simp: rules_of_lines_def map_filter_simps line_result_marshal)

section \<open>Prefixes as sets of addresses\<close>

lemma drop_bit_zero_iff:
  "drop_bit k (x :: 'a::len word) = 0 \<longleftrightarrow> (\<forall>i. k \<le> i \<and> i < LENGTH('a) \<longrightarrow> \<not> bit x i)"
proof
  assume z: "drop_bit k x = 0"
  show "\<forall>i. k \<le> i \<and> i < LENGTH('a) \<longrightarrow> \<not> bit x i"
  proof (intro allI impI)
    fix i
    assume "k \<le> i \<and> i < LENGTH('a)"
    then show "\<not> bit x i" using arg_cong [OF z, of "\<lambda>w. bit w (i - k)"] by (simp add: bit_drop_bit_eq)
  qed
next
  assume r: "\<forall>i. k \<le> i \<and> i < LENGTH('a) \<longrightarrow> \<not> bit x i"
  then have "\<not> bit x (k + n)" for n using bit_imp_le_length [of x "k + n"] by auto
  then show "drop_bit k x = 0" by (intro bit_word_eqI) (simp add: bit_drop_bit_eq)
qed

lemma and_high_mask_zero_iff:
  "n \<le> LENGTH('a) \<Longrightarrow> (x :: 'a::len word) AND high_mask n = 0 \<longleftrightarrow>
     (\<forall>i. LENGTH('a) - n \<le> i \<and> i < LENGTH('a) \<longrightarrow> \<not> bit x i)"
proof
  assume n: "n \<le> LENGTH('a)" and z: "x AND high_mask n = 0"
  show "\<forall>i. LENGTH('a) - n \<le> i \<and> i < LENGTH('a) \<longrightarrow> \<not> bit x i"
  proof (intro allI impI)
    fix i
    assume "LENGTH('a) - n \<le> i \<and> i < LENGTH('a)"
    then show "\<not> bit x i"
      using n arg_cong [OF z, of "\<lambda>w. bit w i"] by (auto simp: high_mask_def bit_simps)
  qed
next
  assume "n \<le> LENGTH('a)" and "\<forall>i. LENGTH('a) - n \<le> i \<and> i < LENGTH('a) \<longrightarrow> \<not> bit x i"
  then show "x AND high_mask n = 0"
    by (intro bit_word_eqI) (auto simp: high_mask_def bit_simps)
qed

definition agree_on :: "nat \<Rightarrow> 'a::len word \<Rightarrow> 'a word \<Rightarrow> bool" where
  "agree_on n a b \<longleftrightarrow> (\<forall>i. LENGTH('a) - n \<le> i \<and> i < LENGTH('a) \<longrightarrow> bit a i = bit b i)"

lemma pfx_contains_V4:
  "n \<le> 32 \<Longrightarrow> pfx_contains (prefix_from (V4 b) (int n)) (V4 a) \<longleftrightarrow> agree_on n a b"
  by (auto simp: pfx_contains_def prefix_from_def pfx_valid_def pfx_bits_def has_zone_def
      without_zone_def bit_len_def agree_on_def drop_bit_zero_iff bit_xor_iff simp del: drop_bit_xor)

lemma pfx_contains_V6:
  "n \<le> 128 \<Longrightarrow> pfx_contains (prefix_from (V6 b z) (int n)) (V6 a []) \<longleftrightarrow> agree_on n a b"
  by (auto simp: pfx_contains_def prefix_from_def pfx_valid_def pfx_bits_def has_zone_def
      without_zone_def bit_len_def agree_on_def and_high_mask_zero_iff bit_xor_iff)

lemma pfx_contains_mixed:
  "\<not> pfx_contains (prefix_from (V4 b) n) (V6 a y)"
  "\<not> pfx_contains (prefix_from (V6 c z) n) (V4 d)"
  by (simp_all add: pfx_contains_def prefix_from_def without_zone_def)

section \<open>Properties\<close>

text \<open>C15: What a rule set contains, for every list of rules in any order: an address, after
  unmapping, that some include rule's prefix covers and that lies in the prefix of every exclude
  rule. Nothing else about the order of the rules matters, and a nil set contains nothing.\<close>

theorem ip_ruleset_contains_spec:
  "set_contains s ip \<longleftrightarrow>
     (\<exists>r\<in>set (set_rules s). \<not> rnot r \<and> pfx_contains (rprefix r) (unmap ip)) \<and>
     {r \<in> set (set_rules s). rnot r \<and> \<not> pfx_contains (rprefix r) (unmap ip)} = {}"
  by (cases s) (auto simp: set_contains_iff set_rules_def, auto simp: set_contains_def)

text \<open>C16: A rule of \<open>n\<close> bits contains exactly the addresses of its own family that agree with
  the rule's address on the first \<open>n\<close> bits (with \<open>!\<close>, exactly the others), where an
  IPv4-mapped IPv6 address counts as the IPv4 address it maps.\<close>

theorem ip_rule_contains_bits:
  assumes "n \<le> 32" and "m \<le> 128" and "\<not> is4in6 c"
  shows "(rule_contains \<lparr>rprefix = prefix_from (V4 b) (int n), rnot = neg\<rparr> (V4 a)
           \<longleftrightarrow> agree_on n a b \<noteq> neg) \<and>
    (rule_contains \<lparr>rprefix = prefix_from (V4 b) (int n), rnot = neg\<rparr> (V6 (map4in6 a) z)
           \<longleftrightarrow> agree_on n a b \<noteq> neg) \<and>
    (rule_contains \<lparr>rprefix = prefix_from (V6 d []) (int m), rnot = neg\<rparr> (V6 c [])
           \<longleftrightarrow> agree_on m c d \<noteq> neg) \<and>
    (rule_contains \<lparr>rprefix = prefix_from (V6 d []) (int m), rnot = neg\<rparr> (V4 a) \<longleftrightarrow> neg)"
proof -
  have "unmap (V6 c []) = V6 c []" using assms(3) by (simp add: unmap_def)
  then show ?thesis
    using assms(1,2)
    by (simp add: rule_contains_def pfx_contains_V4 pfx_contains_V6 pfx_contains_mixed)
qed

theorem ip_rule_contains_bits_witness:
  "rule_contains \<lparr>rprefix = prefix_from (V4 0x7f000001) (int 8), rnot = False\<rparr> (V4 0x7f010302)
     \<longleftrightarrow> agree_on 8 (0x7f010302 :: 32 word) 0x7f000001"
  using ip_rule_contains_bits [where n = 8 and m = 128 and c = 1 and b = "0x7f000001" and
      neg = False and a = "0x7f010302"]
  by (simp add: is4in6_def)

text \<open>A block list cannot be passed by writing an IPv4 address in its IPv4-mapped IPv6 form,
  with or without a zone: both forms are contained, or neither.\<close>

theorem ip_ruleset_mapped:
  "set_contains s (V6 (map4in6 w) z) = set_contains s (V4 w)"
  by (metis set_contains_unmap unmap_map4in6 unmap_V4)

text \<open>C17: Text round trip. Reading what \<open>MarshalText\<close> wrote gives back the same rules in the
  same order without an error, for every set of well-formed rules of either address family,
  single addresses, prefixes and exclusions alike, whatever the receiver held before.\<close>

theorem ip_ruleset_roundtrip:
  assumes "\<forall>r\<in>set (rules s). rule_wf r"
  shows "set_unmarshal s0 (set_marshal s) = (s0\<lparr>rules := rules s\<rparr>, [])"
  using assms scan_lines_marshal [OF assms, of "[]"] lines_of_marshalled [OF assms]
  by (simp add: set_unmarshal_eq set_marshal_def)

theorem ip_ruleset_roundtrip_witness:
  "set_unmarshal NewIPRuleSet (set_marshal \<lparr>rules =
     [\<lparr>rprefix = prefix_from (V4 0x7f000001) 32, rnot = False\<rparr>,
      \<lparr>rprefix = prefix_from (V6 0xfd000000000000000000000000000000 []) 8, rnot = True\<rparr>]\<rparr>) =
   (\<lparr>rules =
     [\<lparr>rprefix = prefix_from (V4 0x7f000001) 32, rnot = False\<rparr>,
      \<lparr>rprefix = prefix_from (V6 0xfd000000000000000000000000000000 []) 8, rnot = True\<rparr>]\<rparr>, [])"
  by (subst ip_ruleset_roundtrip)
     (simp_all add: rule_wf_def pfx_wf_def prefix_from_def pfx_valid_def pfx_bits_def bit_len_def
       has_zone_def without_zone_def NewIPRuleSet_def)

text \<open>Reading a rule file keeps the rule of every line that parses, in order, skips blank and
  comment lines, and reports every other line under its number; the earlier rules of the set are
  replaced.\<close>

theorem ip_ruleset_unmarshal_spec:
  "set_unmarshal s buf = (s\<lparr>rules := rules_of_lines (scan_lines buf)\<rparr>,
                          errors_of_lines 0 (scan_lines buf))"
  by (rule set_unmarshal_eq)

text \<open>\<open>Add\<close> and \<open>Remove\<close> keep the rules distinct and act on the set held as insertion and
  deletion: \<open>Add\<close> reports whether the rule was new, \<open>Remove\<close> whether it was there, and removing
  an added rule restores the set.\<close>

theorem ip_ruleset_add_remove:
  assumes "distinct (rules s)"
  shows "distinct (rules (fst (set_add s r))) \<and> distinct (rules (fst (set_remove s r))) \<and>
    set (rules (fst (set_add s r))) = insert r (set (rules s)) \<and>
    set (rules (fst (set_remove s r))) = set (rules s) - {r} \<and>
    (snd (set_add s r) \<longleftrightarrow> r \<notin> set (rules s)) \<and>
    (snd (set_remove s r) \<longleftrightarrow> r \<in> set (rules s)) \<and>
    (snd (set_add s r) \<longrightarrow> set (rules (fst (set_remove (fst (set_add s r)) r))) = set (rules s))"
  using assms
  by (simp_all add: ipset.add_held ipset.add_flag ipset.remove_held ipset.remove_flag
      ipset.add_remove ipset.add_inv ipset.remove_inv)

theorem ip_ruleset_add_remove_witness:
  "set (rules (fst (set_remove (fst (set_add NewIPRuleSet \<lparr>rprefix = zero_prefix, rnot = True\<rparr>))
     \<lparr>rprefix = zero_prefix, rnot = True\<rparr>))) = {}"
  using ip_ruleset_add_remove [of NewIPRuleSet "\<lparr>rprefix = zero_prefix, rnot = True\<rparr>"]
  by (simp add: NewIPRuleSet_def set_add_def)

text \<open>An exclude rule does not take its prefix out of the set but everything else: with one
  include and one exclude rule the set contains exactly the addresses in both prefixes, so the
  addresses the exclamation mark was written for are the only ones left.\<close>

theorem ip_ruleset_exclude_intersects:
  "set_contains (Some \<lparr>rules = [\<lparr>rprefix = p, rnot = False\<rparr>, \<lparr>rprefix = q, rnot = True\<rparr>]\<rparr>) ip
     \<longleftrightarrow> pfx_contains p (unmap ip) \<and> pfx_contains q (unmap ip)"
  by (simp add: set_contains_iff)

text \<open>A line of 65536 bytes or more, a comment included, silently ends the reading of a rule
  file: the rules before it are kept, those after it are lost, and no error is returned.\<close>

theorem ip_ruleset_long_line_truncates:
  assumes "\<forall>r\<in>set (rules t). rule_wf r" and "LF \<notin> set l" and "65536 \<le> length l"
  shows "set_unmarshal s (set_marshal t @ l @ LF # rest) = (s\<lparr>rules := rules t\<rparr>, [])"
proof -
  have "scan_lines (l @ LF # rest) = []"
    using assms(2,3) by (intro scan_lines_long) (simp_all add: MaxScanTokenSize_def)
  then show ?thesis
    using scan_lines_marshal [OF assms(1), of "l @ LF # rest"] lines_of_marshalled [OF assms(1)]
    by (simp add: set_unmarshal_eq set_marshal_def)
qed

theorem ip_ruleset_long_line_truncates_witness:
  "set_unmarshal NewIPRuleSet (set_marshal \<lparr>rules = []\<rparr> @ replicate 65536 (CHR ''#'') @
     LF # ''127.0.0.1'') = (NewIPRuleSet, [])"
  using ip_ruleset_long_line_truncates [of "\<lparr>rules = []\<rparr>" "replicate 65536 (CHR ''#'')"
      NewIPRuleSet "''127.0.0.1''"]
  by (simp add: NewIPRuleSet_def)

end
