(* ===== verification/Wire_Lock.thy ===== *)
theory Wire_Lock
  imports Wire_Step
begin

text \<open>
  Who holds the lock of a connection between two sections: nobody, except a dial or listen that was
  cancelled when its reply had just arrived. Everything the reader loop does gives the lock back, and so
  do \<open>Dial\<close> and \<open>ListenPacket\<close>, whose context is never done.
\<close>

section \<open>The reader loop gives the lock back\<close>

lemma locked_close [simp]: "locked (closeWithCode k e c) = locked c" "locked (closeWithErr e' c) = locked c"
  "locked (close_stream c) = locked c" "locked (emit ev c) = locked c" "locked (fire_result kr ok msg c) = locked c"
  by (auto simp: closeWithErr_def conn_ops split: option.split on_result.split)

lemma locked_sendCmd [simp]: "locked (snd (sendCmd cmd c)) = locked c"
  by (auto simp: sendCmd_def close_on_err_def ws_write_def split: list.split option.split)

lemma locked_bind_emit [simp]: "locked (snd (sbind (sendCmd cmd) (\<lambda>_ c'. (Ok (), emit e c')) c)) = locked c"
  using locked_sendCmd [of cmd c]
  by (auto simp: sbind_def simp del: locked_sendCmd split: prod.split outcome.split)

lemma locked_stream_write: "stream_write s b c = (x, c') \<Longrightarrow> locked c' = locked c"
  by (auto simp: stream_write_def split: list.splits option.splits)

lemma locked_copy: "copy_chunks s bs e c = (x, c') \<Longrightarrow> locked c' = locked c"
proof (induction s bs e c rule: copy_chunks.induct)
  case (2 s b bs e c)
  then show ?case
    using locked_stream_write [of s b c]
    by (cases "stream_write s b c"; cases "fst (stream_write s b c)") (auto split: if_splits)
qed simp

lemma locked_handle_close [simp]: "locked (snd (handle_close c)) = locked c"
proof -
  let ?c = "close_stream (c\<lparr>status := StatusIdle\<rparr>)"
  obtain r c' where "sendCmd [cmdReply] ?c = (r, c')" by (cases "sendCmd [cmdReply] ?c")
  then show ?thesis
    using locked_sendCmd [of "[cmdReply]" ?c] by (cases r) (simp_all add: handle_close_def close_on_err_def)
qed

lemma locked_handle_open [simp]:
  "locked (snd (handle_open_stream v args c)) = locked c" "locked (snd (handle_open_packet v args c)) = locked c"
  unfolding handle_open_stream_def handle_open_packet_def Let_def
  by (simp_all split: prod.split outcome.split option.split)

lemma locked_handle_rest [simp]:
  "locked (snd (handle_reply args c)) = locked c" "locked (snd (handle_error c)) = locked c"
  by (simp_all add: handle_reply_def handle_error_def close_packet_ch_def
      split: option.split list.split on_cmd_err.split)

lemma locked_run_binary [simp]: "locked (snd (run_binary r c)) = locked c"
proof (cases "status c")
  case StatusStream
  then show ?thesis
  proof (cases "streamConn c")
    case (Some s)
    obtain x c' where "copy_chunks s (rd_chunks r) (rd_end r) c = (x, c')"
      by (cases "copy_chunks s (rd_chunks r) (rd_end r) c")
    then show ?thesis
      using StatusStream Some locked_copy by (cases x) (auto simp: run_binary_def)
  qed (simp add: run_binary_def)
qed (simp_all add: run_binary_def split: outcome.split)

lemma locked_handle_msg: "locked (snd (handle_msg v m c)) = locked c"
proof -
  have "locked (snd (run_command v cmd c)) = locked c" for cmd
    by (cases cmd) (simp_all add: run_command_def)
  then show ?thesis
    by (cases m) (simp_all add: handle_msg_def handleCommand_def handleBinary_def with_lock_def)
qed

lemma locked_Handle: "locked (snd (Handle v ms fin c)) = locked c"
proof (induction ms arbitrary: c)
  case Nil
  then show ?case by (cases fin) (simp_all add: cancel_def)
next
  case (Cons m ms)
  obtain r c' where m: "handle_msg v m c = (r, c')" by (cases "handle_msg v m c")
  then have "locked c' = locked c" using locked_handle_msg [of v m c] by simp
  then show ?case using Cons [of c'] m by (cases r) (simp_all add: sbind_def)
qed

lemma locked_handle_msgs: "locked (snd (handle_msgs v ms c)) = locked c"
proof (induction ms arbitrary: c)
  case (Cons m ms)
  obtain r c' where m: "handle_msg v m c = (r, c')" by (cases "handle_msg v m c")
  then have "locked c' = locked c" using locked_handle_msg [of v m c] by simp
  then show ?case using Cons [of c'] m by (cases r) (simp_all add: sbind_def)
qed simp

section \<open>The ping goroutine is a sequence of steps\<close>

lemma keep_alive_steps: "keep_alive n es c = (r, c') \<Longrightarrow> (conn_step v)\<^sup>*\<^sup>* c c'"
proof (induction n es c rule: keep_alive.induct)
  case (2 n e es c)
  have "conn_step v c (closeWithErr err c)" for err
    by (rule conn_step.ping [of "Some err"]) (simp add: Ping_def close_on_err_def)
  moreover have "conn_step v c (ping_done c)" by (rule conn_step.ping_goroutine)
  ultimately show ?case
    using 2 by (auto split: if_splits ping_event.splits option.splits)
qed auto

section \<open>A dial without a context\<close>

lemma bind_locked:
  assumes "\<And>c. locked (snd (m c)) = locked c" and "\<And>x c. locked (snd (f x c)) = locked c"
  shows "locked (snd (sbind m f c)) = locked c"
proof -
  obtain r c' where "m c = (r, c')" by (cases "m c")
  then show ?thesis using assms(1) [of c] assms(2) [of _ c'] by (cases r) (simp_all add: sbind_def)
qed

lemma with_lock_locked: "(\<And>c. locked (snd (m c)) = locked c) \<Longrightarrow> locked (snd (with_lock m c)) = locked c"
  by (simp add: with_lock_def)

lemma locked_open_start: "locked (snd (open_start k p t c)) = locked c"
  unfolding open_start_def
proof (rule with_lock_locked)
  fix c :: Conn
  let ?c = "c\<lparr>onResult := Some (OnDial (next_id c)), next_id := next_id c + 1\<rparr>"
  obtain r c' where "sendCmd (open_cmd k p t) ?c = (r, c')" by (cases "sendCmd (open_cmd k p t) ?c")
  then show "locked (snd (if status c \<noteq> StatusIdle then (Err (StatusError (status c)), c)
      else sbind (sendCmd (open_cmd k p t)) (\<lambda>_ c'. (Ok (next_id c), c'\<lparr>status := StatusInOper\<rparr>)) ?c)) = locked c"
    using locked_sendCmd [of "open_cmd k p t" ?c] by (cases r) (simp_all add: sbind_def)
qed

lemma locked_finish: "locked (snd (dial_finish a c)) = locked c" "locked (snd (listen_finish a c)) = locked c"
  by (simp_all add: dial_finish_def listen_finish_def with_lock_def Let_def)

lemma locked_wait: "ev = Replied \<or> ev = ConnDone \<Longrightarrow> locked (snd (open_wait m ev i c)) = locked c"
  by (auto simp: open_wait_def split: option.splits if_splits)

theorem background_dial_unlocked:
  "locked (snd (conn_Dial v before replied between p t c)) = locked c"
  "locked (snd (conn_ListenPacket v before replied between p t c)) = locked c"
  unfolding conn_Dial_def conn_ListenPacket_def DialContext_def ListenPacketContext_def dial_start_def listen_start_def
    dial_wait_def listen_wait_def
  by (intro bind_locked; simp add: locked_open_start locked_handle_msgs locked_wait locked_finish)+

end
