(* ===== verification/Server_Dial.thy ===== *)
theory Server_Dial
  imports Ip_Rule Wire_Command Wire_Lock
begin

text \<open>
  The server of \<open>server.go\<close>: resolving the requested host, passing over blocked addresses, dialling
  or listening on the first that works, and serving one websocket. Resolver, dialer and packet
  listener are what the server is configured with, and \<open>Quote\<close> stands for \<open>strconv.Quote\<close>, which only
  occurs in the text of an error; each call of the dialer is recorded.
\<close>

section \<open>Protocols\<close>

definition getBaseProtococl :: "string \<Rightarrow> string" where
  "getBaseProtococl protocol =
     (case index_byte protocol (CHR '':'') of Some i \<Rightarrow> take i protocol | None \<Rightarrow> protocol)"

definition getLookupProtocol :: "string \<Rightarrow> string" where
  "getLookupProtocol protocol =
     (if protocol = [] then ''ip''
      else if last protocol = CHR ''4'' then ''ip4''
      else if last protocol = CHR ''6'' then ''ip6''
      else ''ip'')"

section \<open>Dialling\<close>

datatype dial_error =
    BadAddr string addr_error
  | BadPort string num_error
  | LookupError string
  | DialError string
  | ErrIPBlocked
  | ErrNetworkUnreachable
  | ErrHostUnreachable

definition addr_error_text :: "addr_error \<Rightarrow> string" where
  "addr_error_text e =
     (case e of
        MissingPort \<Rightarrow> ''missing port in address''
      | TooManyColons \<Rightarrow> ''too many colons in address''
      | MissingClose \<Rightarrow> ''missing '' @ [CHR '']''] @ '' in address''
      | UnexpectedOpen \<Rightarrow> ''unexpected '' @ [CHR ''[''] @ '' in address''
      | UnexpectedClose \<Rightarrow> ''unexpected '' @ [CHR '']''] @ '' in address'')"

text \<open>The texts of a \<open>net.AddrError\<close> and a \<open>strconv.NumError\<close>; \<open>quote\<close> is \<open>strconv.Quote\<close>.\<close>

definition dial_error_text :: "(string \<Rightarrow> string) \<Rightarrow> dial_error \<Rightarrow> string" where
  "dial_error_text quote e =
     (case e of
        BadAddr t a \<Rightarrow> (if t = [] then [] else ''address '' @ t @ '': '') @ addr_error_text a
      | BadPort p n \<Rightarrow> ''strconv.ParseUint: parsing '' @ quote p @ '': '' @
          (case n of ErrSyntax \<Rightarrow> ''invalid syntax'' | ErrRange \<Rightarrow> ''value out of range'')
      | LookupError s \<Rightarrow> s
      | DialError s \<Rightarrow> s
      | ErrIPBlocked \<Rightarrow> ''IP is blocked''
      | ErrNetworkUnreachable \<Rightarrow> ''Network unreachable''
      | ErrHostUnreachable \<Rightarrow> ''Host unreachable'')"

text \<open>A dialer gives an error text, or a connection (the text of its local address) that may be
  nil.\<close>

type_synonym dialer = "string \<Rightarrow> string \<Rightarrow> string + string option"

record Server =
  Resolver :: "string \<Rightarrow> string \<Rightarrow> string + netip_addr list"
  SDialer :: dialer
  SPacketListener :: dialer
  Blocks :: "IPRuleSet option"
  Quote :: "string \<Rightarrow> string"

text \<open>The loop over the addresses: \<open>conn\<close> and \<open>err\<close> are the named results so far; the targets
  dialled are listed.\<close>

fun dial_loop ::
  "(netip_addr \<Rightarrow> bool) \<Rightarrow> dialer \<Rightarrow> string \<Rightarrow> u16 \<Rightarrow> netip_addr list \<Rightarrow> dial_error option \<Rightarrow>
     (dial_error + string option) option \<times> dial_error option \<times> string list" where
  "dial_loop bl d protocol port [] err = (None, err, [])"
| "dial_loop bl d protocol port (v # ips) err =
     (if bl v then dial_loop bl d protocol port ips (Some ErrIPBlocked)
      else let t = addrport_string v port
           in case d protocol t of
                Inr conn \<Rightarrow> (Some (Inr conn), None, [t])
              | Inl e \<Rightarrow> (case dial_loop bl d protocol port ips (Some (DialError e)) of
                           (r, err', ts) \<Rightarrow> (r, err', t # ts)))"

text \<open>What follows the loop: an early return, the last error, or what the caller does without
  one.\<close>

definition loop_result ::
  "dial_error + string option \<Rightarrow> (dial_error + string option) option \<times> dial_error option \<times> string list \<Rightarrow>
     (dial_error + string option) \<times> string list" where
  "loop_result no_err l =
     (case l of
        (Some r, _, ts) \<Rightarrow> (r, ts)
      | (None, Some e, ts) \<Rightarrow> (Inl e, ts)
      | (None, None, ts) \<Rightarrow> (no_err, ts))"

definition resolve_and_dial ::
  "Server \<Rightarrow> string list \<Rightarrow> dialer \<Rightarrow> dial_error + string option \<Rightarrow> string \<Rightarrow> string \<Rightarrow>
     (dial_error + string option) \<times> string list" where
  "resolve_and_dial s protocols d no_err protocol t =
     (case split_host_port t of
        Inl e \<Rightarrow> (Inl (BadAddr t e), [])
      | Inr (host, port0) \<Rightarrow>
          (case parse_uint16 port0 of
             Inl e \<Rightarrow> (Inl (BadPort port0 e), [])
           | Inr port \<Rightarrow>
               let baseP = getBaseProtococl protocol
               in if baseP \<in> set protocols then
                    (case Resolver s (getLookupProtocol baseP) host of
                       Inl e \<Rightarrow> (Inl (LookupError e), [])
                     | Inr ips \<Rightarrow>
                         loop_result no_err
                           (dial_loop (set_contains (Blocks s)) d protocol (word_of_nat port) ips None))
                  else (Inl ErrNetworkUnreachable, [])))"

definition server_dialer :: "Server \<Rightarrow> string \<Rightarrow> string \<Rightarrow> (dial_error + string option) \<times> string list" where
  "server_dialer s =
     resolve_and_dial s [''tcp'', ''tcp4'', ''tcp6''] (SDialer s) (Inl ErrHostUnreachable)"

definition pktListener :: "Server \<Rightarrow> string \<Rightarrow> string \<Rightarrow> (dial_error + string option) \<times> string list" where
  "pktListener s =
     resolve_and_dial s [''ip'', ''ip4'', ''ip6'', ''udp'', ''udp4'', ''udp6''] (SPacketListener s) (Inr None)"

section \<open>Serving\<close>

definition as_outcome ::
  "(string \<Rightarrow> string) \<Rightarrow> dial_error + string option \<Rightarrow> (string, string option) outcome" where
  "as_outcome quote r = (case r of Inl e \<Rightarrow> Err (dial_error_text quote e) | Inr c \<Rightarrow> Ok c)"

definition server_env :: "Server \<Rightarrow> env" where
  "server_env s = \<lparr>OnCheckIncoming = None,
     Dialer = (\<lambda>p t. as_outcome (Quote s) (fst (server_dialer s p t))),
     PacketListener = (\<lambda>p t. as_outcome (Quote s) (fst (pktListener s p t)))\<rparr>"

datatype http_log = RecoveredPanic panic | HandleError conn_error

text \<open>\<open>ServeHTTP\<close> on an accepted websocket: the reader loop, the deferred \<open>Close\<close>, and what is
  logged. A loop that blocks leaves the connection as it is.\<close>

definition ServeHTTP :: "Server \<Rightarrow> bool \<Rightarrow> incoming list \<Rightarrow> ws_end \<Rightarrow> Conn \<Rightarrow> http_log list \<times> Conn" where
  "ServeHTTP s accepted msgs fin c =
     (if \<not> accepted then ([], c)
      else case Handle (server_env s) msgs fin c of
             (Ok _, c') \<Rightarrow> ([], snd (Close c'))
           | (Err e, c') \<Rightarrow> ([HandleError e], snd (Close c'))
           | (Panic p, c') \<Rightarrow> ([RecoveredPanic p], snd (Close c'))
           | (Hang, c') \<Rightarrow> ([], c'))"

section \<open>The filter\<close>

text \<open>An address filter sees an address and its IPv4 form alike.\<close>

locale address_filter =
  fixes bl :: "netip_addr \<Rightarrow> bool"
  assumes bl_unmap: "bl (unmap a) = bl a"
begin

definition admitted :: "netip_addr list \<Rightarrow> netip_addr list" where
  "admitted ips = filter (\<lambda>v. \<not> bl v) ips"

lemma dial_loop_targets:
  "set (snd (snd (dial_loop bl d p port ips err))) \<subseteq> (\<lambda>v. addrport_string v port) ` set (admitted ips)"
proof (induction ips arbitrary: err)
  case (Cons a ips)
  show ?case
  proof (cases "d p (addrport_string a port)")
    case (Inl e)
    then show ?thesis
      using Cons [of "Some ErrIPBlocked"] Cons [of "Some (DialError e)"]
      by (auto simp: admitted_def Let_def split: prod.splits)
  next
    case (Inr c)
    then show ?thesis
      using Cons [of "Some ErrIPBlocked"] by (auto simp: admitted_def Let_def)
  qed
qed simp

lemma admitted_unmap: "v \<in> set (admitted ips) \<Longrightarrow> \<not> bl (unmap v)"
  by (simp add: admitted_def bl_unmap)

lemma admitted_mapped: "V6 (map4in6 w) z \<in> set (admitted ips) \<Longrightarrow> \<not> bl (V4 w)"
  using admitted_unmap [of "V6 (map4in6 w) z"] by simp

end

interpretation blocks: address_filter "set_contains s" for s
  by unfold_locales (rule set_contains_unmap)

subsection \<open>The loop, specified\<close>

text \<open>The connection is the one of the first admitted address whose dial succeeds, and only the
  admitted addresses up to it are dialled; if there is none, all of them were dialled and the
  error is that of the last address of the list.\<close>

definition dial_ok :: "dialer \<Rightarrow> string \<Rightarrow> u16 \<Rightarrow> netip_addr \<Rightarrow> bool" where
  "dial_ok d p port v = (case d p (addrport_string v port) of Inl _ \<Rightarrow> False | Inr _ \<Rightarrow> True)"

definition address_error :: "(netip_addr \<Rightarrow> bool) \<Rightarrow> dialer \<Rightarrow> string \<Rightarrow> u16 \<Rightarrow> netip_addr \<Rightarrow> dial_error" where
  "address_error bl d p port v =
     (if bl v then ErrIPBlocked
      else case d p (addrport_string v port) of Inl e \<Rightarrow> DialError e | Inr _ \<Rightarrow> ErrHostUnreachable)"

lemma dial_loop_found:
  assumes "\<forall>u\<in>set pre. bl u \<or> \<not> dial_ok d p port u" and "\<not> bl v"
    and "d p (addrport_string v port) = Inr conn"
  shows "dial_loop bl d p port (pre @ v # post) err =
    (Some (Inr conn), None, map (\<lambda>u. addrport_string u port) (filter (\<lambda>u. \<not> bl u) (pre @ [v])))"
  using assms
  by (induction pre arbitrary: err) (auto simp: dial_ok_def Let_def split: sum.splits)

lemma dial_loop_none:
  assumes "\<forall>u\<in>set ips. bl u \<or> \<not> dial_ok d p port u"
  shows "dial_loop bl d p port ips err =
    (None, if ips = [] then err else Some (address_error bl d p port (last ips)),
     map (\<lambda>u. addrport_string u port) (filter (\<lambda>u. \<not> bl u) ips))"
  using assms
  by (induction ips arbitrary: err)
    (auto simp: dial_ok_def address_error_def Let_def split: sum.splits)

definition dial_spec ::
  "(netip_addr \<Rightarrow> bool) \<Rightarrow> dialer \<Rightarrow> dial_error + string option \<Rightarrow> string \<Rightarrow> u16 \<Rightarrow> netip_addr list \<Rightarrow>
     (dial_error + string option) \<times> string list" where
  "dial_spec bl d no_err p port ips =
     (let works = (\<lambda>v. \<not> bl v \<and> dial_ok d p port v);
          text = (\<lambda>vs. map (\<lambda>u. addrport_string u port) (filter (\<lambda>u. \<not> bl u) vs))
      in case dropWhile (\<lambda>v. \<not> works v) ips of
           v # _ \<Rightarrow> (case d p (addrport_string v port) of
                       Inr conn \<Rightarrow> Inr conn | Inl e \<Rightarrow> no_err,
                     text (takeWhile (\<lambda>v. \<not> works v) ips @ [v]))
         | [] \<Rightarrow> (if ips = [] then no_err else Inl (address_error bl d p port (last ips)), text ips))"

lemma dial_loop_spec:
  "loop_result no_err (dial_loop bl d p port ips None) = dial_spec bl d no_err p port ips"
proof (cases "dropWhile (\<lambda>v. \<not> (\<not> bl v \<and> dial_ok d p port v)) ips")
  case Nil
  then have "\<forall>u\<in>set ips. bl u \<or> \<not> dial_ok d p port u" by auto
  from dial_loop_none [OF this] show ?thesis
    using Nil by (simp add: dial_spec_def loop_result_def Let_def del: dropWhile_eq_Nil_conv)
next
  case (Cons v post)
  let ?pre = "takeWhile (\<lambda>v. \<not> (\<not> bl v \<and> dial_ok d p port v)) ips"
  have ips: "ips = ?pre @ v # post" using Cons takeWhile_dropWhile_id by metis
  have "\<not> bl v" "dial_ok d p port v"
    using hd_dropWhile [of "\<lambda>v. \<not> (\<not> bl v \<and> dial_ok d p port v)" ips] unfolding Cons by simp_all
  then obtain conn where conn: "d p (addrport_string v port) = Inr conn"
    by (auto simp: dial_ok_def split: sum.splits)
  have "\<forall>u\<in>set ?pre. bl u \<or> \<not> dial_ok d p port u" by (auto dest: set_takeWhileD)
  from dial_loop_found [OF this \<open>\<not> bl v\<close> conn, of post None] show ?thesis
    using Cons conn ips by (simp add: dial_spec_def loop_result_def Let_def)
qed

section \<open>Properties\<close>

text \<open>A server of the witnesses, with one blocked address.\<close>

definition a_wpn_server :: Server where
  "a_wpn_server = \<lparr>Resolver = (\<lambda>_ h. if h = ''e'' then Inr [] else Inr [V4 0x7f000001, V4 0x01020304]),
     SDialer = (\<lambda>_ _. Inr (Some ''me'')), SPacketListener = (\<lambda>_ _. Inr (Some ''me'')),
     Blocks = Some \<lparr>rules = [\<lparr>rprefix = prefix_from (V4 0x7f000001) 32, rnot = False\<rparr>]\<rparr>, Quote = id\<rparr>"

lemma split_he: "split_host_port ''e:80'' = Inr (''e'', ''80'')" "split_host_port ''h:80'' = Inr (''h'', ''80'')"
  using split_host_port_plain [of "''e''" "''80''"] split_host_port_plain [of "''h''" "''80''"] by simp_all

lemma port_80: "parse_uint16 ''80'' = Inr 80"
  by (simp add: parse_uint16_def base_digit_def digit_val_def)

text \<open>A target that is dialled is one of the resolved and admitted addresses.\<close>

lemma dialled_admitted:
  assumes "x \<in> set (snd (server_dialer s p t)) \<union> set (snd (pktListener s p t))"
  obtains host port0 port ips v where "split_host_port t = Inr (host, port0)" "parse_uint16 port0 = Inr port"
    "Resolver s (getLookupProtocol (getBaseProtococl p)) host = Inr ips"
    "v \<in> set (blocks.admitted (Blocks s) ips)" "x = addrport_string v (word_of_nat port)"
proof -
  have snd_loop: "snd (loop_result r l) = snd (snd l)" for r l
    by (auto simp: loop_result_def split: prod.split option.split)
  obtain ps d r where x: "x \<in> set (snd (resolve_and_dial s ps d r p t))"
    using assms by (auto simp: server_dialer_def pktListener_def)
  then obtain host port0 port ips where "split_host_port t = Inr (host, port0)" "parse_uint16 port0 = Inr port"
    "Resolver s (getLookupProtocol (getBaseProtococl p)) host = Inr ips"
    by (auto simp: resolve_and_dial_def Let_def split: sum.splits if_splits)
  moreover from this have "x \<in> (\<lambda>v. addrport_string v (word_of_nat port)) ` set (blocks.admitted (Blocks s) ips)"
    using x blocks.dial_loop_targets
    by (auto simp: resolve_and_dial_def Let_def snd_loop subset_iff split: if_splits)
  ultimately show ?thesis using that by blast
qed

text \<open>C4: No blocked address is ever dialled. Whatever the resolver answers and the dialer does,
  every target that the server's dialer or packet listener is called with is the text of a
  resolved address that the block list does not contain, neither as it is nor, for an IPv4-mapped
  one, as the IPv4 address.\<close>

theorem server_never_dials_blocked:
  assumes "split_host_port t = Inr (host, port0)" and "parse_uint16 port0 = Inr port"
    and "Resolver s (getLookupProtocol (getBaseProtococl p)) host = Inr ips"
    and "x \<in> set (snd (server_dialer s p t)) \<union> set (snd (pktListener s p t))"
  shows "\<exists>v\<in>set ips. x = addrport_string v (word_of_nat port) \<and> \<not> set_contains (Blocks s) v \<and>
    \<not> set_contains (Blocks s) (unmap v)"
proof -
  obtain host' port0' port' ips' v where "split_host_port t = Inr (host', port0')" "parse_uint16 port0' = Inr port'"
    "Resolver s (getLookupProtocol (getBaseProtococl p)) host' = Inr ips'"
    "v \<in> set (blocks.admitted (Blocks s) ips')" "x = addrport_string v (word_of_nat port')"
    using assms(4) by (rule dialled_admitted)
  then show ?thesis using assms(1-3) by (auto simp: blocks.admitted_def blocks.bl_unmap)
qed

theorem server_never_dials_blocked_witness:
  "\<exists>v\<in>set [V4 0x7f000001, V4 0x01020304]. addrport_string (V4 0x01020304) (word_of_nat 80) = addrport_string v (word_of_nat 80) \<and>
    \<not> set_contains (Blocks a_wpn_server) v \<and> \<not> set_contains (Blocks a_wpn_server) (unmap v)"
proof (rule server_never_dials_blocked [OF split_he(2) port_80, of a_wpn_server "''tcp''"])
  show "Resolver a_wpn_server (getLookupProtocol (getBaseProtococl ''tcp'')) ''h'' = Inr [V4 0x7f000001, V4 0x01020304]"
    by (simp add: a_wpn_server_def)
  have "set_contains (Blocks a_wpn_server) (V4 0x7f000001)" "\<not> set_contains (Blocks a_wpn_server) (V4 0x01020304)"
    by code_simp+
  moreover have "getBaseProtococl ''tcp'' = ''tcp''" by code_simp
  ultimately show "addrport_string (V4 0x01020304) (word_of_nat 80) \<in>
      set (snd (server_dialer a_wpn_server ''tcp'' ''h:80'')) \<union> set (snd (pktListener a_wpn_server ''tcp'' ''h:80''))"
    by (simp add: server_dialer_def resolve_and_dial_def split_he port_80 a_wpn_server_def loop_result_def)
qed

text \<open>C14: The dialer on every input. A target without host and port, a port that is no 16-bit
  number, a failed lookup and a protocol other than TCP are errors without a dial; otherwise the
  connection is that of the first address that is not blocked and can be dialled, only the
  admitted addresses before it were tried, in the resolver's order, and if there is none the error
  is that of the last address, or host-unreachable if the resolver gave no address.\<close>

theorem server_dialer_spec:
  "server_dialer s p t =
     (case split_host_port t of
        Inl e \<Rightarrow> (Inl (BadAddr t e), [])
      | Inr (host, port0) \<Rightarrow>
          (case parse_uint16 port0 of
             Inl e \<Rightarrow> (Inl (BadPort port0 e), [])
           | Inr port \<Rightarrow>
               if getBaseProtococl p \<notin> {''tcp'', ''tcp4'', ''tcp6''} then (Inl ErrNetworkUnreachable, [])
               else case Resolver s (getLookupProtocol (getBaseProtococl p)) host of
                      Inl e \<Rightarrow> (Inl (LookupError e), [])
                    | Inr ips \<Rightarrow> dial_spec (set_contains (Blocks s)) (SDialer s) (Inl ErrHostUnreachable) p
                                  (word_of_nat port) ips))"
  by (auto simp: server_dialer_def resolve_and_dial_def dial_loop_spec split: sum.split prod.split)

text \<open>A packet request for a host without addresses crashes the session. The packet listener,
  unlike the dialer, has no error for an empty lookup: it returns neither a connection nor an
  error, and handling the request then dereferences the nil connection.\<close>

theorem empty_lookup_panics:
  assumes "split_host_port t = Inr (host, port0)" and "parse_uint16 port0 = Inr port"
    and "Resolver s (getLookupProtocol (getBaseProtococl p)) host = Inr []"
    and "getBaseProtococl p \<in> {''ip'', ''ip4'', ''ip6'', ''udp'', ''udp4'', ''udp6''}"
    and "CHR '';'' \<notin> set p" and "\<not> locked c" and "status c = StatusIdle"
  shows "fst (pktListener s p t) = Inr None \<and>
    fst (handle_msg (server_env s) (InText (open_cmd cmdOpenPacket p t)) c) = Panic NilDereference"
proof -
  have "fst (pktListener s p t) = Inr None"
    using assms(1-4) by (auto simp: pktListener_def resolve_and_dial_def loop_result_def)
  then show ?thesis
    using assms(5-7)
    by (simp add: command_eval handle_open_packet_def open_cmd_def server_env_def incoming_blocked_def as_outcome_def)
qed

theorem empty_lookup_panics_witness:
  "fst (handle_msg (server_env a_wpn_server) (InText (open_cmd cmdOpenPacket ''udp'' ''e:80'')) WrapConn) =
     Panic NilDereference"
proof -
  have "getBaseProtococl ''udp'' = ''udp''" by code_simp
  then show ?thesis
    using empty_lookup_panics [OF split_he(1) port_80, of a_wpn_server "''udp''" WrapConn]
    by (simp add: a_wpn_server_def WrapConn_def)
qed

text \<open>\<open>ServeHTTP\<close> survives whatever the peer sends. When the reader loop ends, by an end of
  stream, an error or a panic of any handler, the panic is recovered and logged, an error is
  logged, and the connection is left closed with its context cancelled.\<close>

theorem serve_http_closes:
  assumes "fst (Handle (server_env s) msgs fin c) \<noteq> Hang" and "\<not> locked c"
  shows "\<exists>log c'. ServeHTTP s True msgs fin c = (log, c') \<and> status c' = StatusClosed \<and>
    (case fst (Handle (server_env s) msgs fin c) of
       Panic p \<Rightarrow> log = [RecoveredPanic p] | Err e \<Rightarrow> log = [HandleError e] | _ \<Rightarrow> log = [])"
  using assms close_conn_frame(2) locked_Handle [of "server_env s" msgs fin c]
  by (cases "Handle (server_env s) msgs fin c"; cases "fst (Handle (server_env s) msgs fin c)")
    (auto simp: ServeHTTP_def)

theorem serve_http_closes_witness:
  "\<exists>log c'. ServeHTTP a_wpn_server True [InText []] ReadEOF WrapConn = (log, c') \<and> status c' = StatusClosed \<and>
    log = [RecoveredPanic IndexOutOfRange]"
proof -
  have "Handle (server_env a_wpn_server) [InText []] ReadEOF WrapConn = (Panic IndexOutOfRange, WrapConn)"
    by (simp add: command_eval WrapConn_def)
  then show ?thesis
    using serve_http_closes [of a_wpn_server "[InText []]" ReadEOF WrapConn] by (simp add: WrapConn_def)
qed

end
