(* ===== verification/Ws_Socks.thy ===== *)
theory Ws_Socks
  imports Client_Pools Server_Dial Socks5_Server
begin

text \<open>
  The handler of \<open>wssocks/handler.go\<close>, which puts the SOCKS5 server in front of a websocket
  client, and what a request does on its way from the SOCKS5 client through \<open>Client\<close> to the dialer
  of the remote server and back.
\<close>

section \<open>The handler\<close>

definition tcp_network :: "byte \<Rightarrow> string" where
  "tcp_network t = (if t = IPv4Addr then ''tcp4'' else if t = IPv6Addr then ''tcp6'' else ''tcp'')"

definition udp_network :: "byte \<Rightarrow> string" where
  "udp_network t = (if t = IPv4Addr then ''udp4'' else if t = IPv6Addr then ''udp6'' else ''udp'')"

text \<open>An error of the client is none of the errors of the SOCKS5 package; only its text matters
  there.\<close>

definition as_socks :: "(ConnPipe \<Rightarrow> sock) \<Rightarrow> (conn_error, ConnPipe) outcome \<Rightarrow> (socks_error, sock) outcome" where
  "as_socks f r =
     (case r of Ok p \<Rightarrow> Ok (f p) | Err e \<Rightarrow> Err (OtherErr (conn_error_text e)) | Panic q \<Rightarrow> Panic q | Hang \<Rightarrow> Hang)"

definition with_text ::
  "AddrPort \<Rightarrow> (string \<Rightarrow> Client \<Rightarrow> (conn_error, ConnPipe) outcome \<times> Client) \<Rightarrow>
     Client \<Rightarrow> (conn_error, ConnPipe) outcome \<times> Client" where
  "with_text a f k =
     (case addrport_text a of Ok t \<Rightarrow> f t k | Panic q \<Rightarrow> (Panic q, k) | _ \<Rightarrow> (Hang, k))"

text \<open>What the websocket delivers during the call is an argument, as for \<open>client_DialContext\<close>.\<close>

definition wss_DialTCP ::
  "env \<Rightarrow> incoming list \<Rightarrow> select_case \<Rightarrow> incoming list \<Rightarrow> AddrPort \<Rightarrow>
     Client \<Rightarrow> (conn_error, ConnPipe) outcome \<times> Client" where
  "wss_DialTCP v before ev between a =
     with_text a (client_DialContext v before ev between (tcp_network (atype a)))"

definition wss_BindTCP :: "AddrPort \<Rightarrow> (socks_error, tcp_listener) outcome" where
  "wss_BindTCP a = Err ErrUnsupportCommand"

definition wss_BindUDP ::
  "env \<Rightarrow> incoming list \<Rightarrow> select_case \<Rightarrow> incoming list \<Rightarrow> AddrPort \<Rightarrow>
     Client \<Rightarrow> (conn_error, ConnPipe) outcome \<times> Client" where
  "wss_BindUDP v before ev between a =
     with_text a (client_ListenPacketContext v before ev between (udp_network (atype a)))"

text \<open>The handler of one SOCKS5 session over a client in state \<open>k\<close>; \<open>f\<close> is what the session sees
  of a pipe.\<close>

definition wss_handler ::
  "(ConnPipe \<Rightarrow> sock) \<Rightarrow> env \<Rightarrow> incoming list \<Rightarrow> select_case \<Rightarrow> incoming list \<Rightarrow> Client \<Rightarrow> handler" where
  "wss_handler f v before ev between k =
     \<lparr>DialTCP = (\<lambda>_ a. as_socks f (fst (wss_DialTCP v before ev between a k))),
      BindTCP = (\<lambda>_. wss_BindTCP)\<rparr>"

section \<open>The target on its way\<close>

definition socks_ip :: "AddrPort \<Rightarrow> netip_addr" where
  "socks_ip a =
     (if atype a = IPv4Addr then V4 (join_words (adata a)) else V6 (join_words (adata a)) [])"

definition ip_lookup :: "AddrPort \<Rightarrow> string" where
  "ip_lookup a = (if atype a = IPv4Addr then ''ip4'' else ''ip6'')"

lemma no_bracket_itoa: "CHR ''['' \<notin> set (itoa n)" "CHR '']'' \<notin> set (itoa n)"
  by (rule digit_char_notin; simp add: digit_val_def)+

lemma ip_target:
  assumes "addr_wf a" and "atype a \<noteq> DomainAddr"
  shows "addrport_text a = Ok (addrport_string (socks_ip a) (aport a))"
    and "split_host_port (addrport_string (socks_ip a) (aport a)) =
      Inr (addr_string (socks_ip a), itoa (unat (aport a)))"
proof -
  note no = not_colon_itoa no_bracket_itoa
  have "addrport_text a = Ok (addrport_string (socks_ip a) (aport a)) \<and>
    split_host_port (addrport_string (socks_ip a) (aport a)) =
      Inr (addr_string (socks_ip a), itoa (unat (aport a)))"
    using assms(1)
  proof (cases rule: addr_wf_cases)
    case v4
    then have "socks_ip a = V4 (join_words (adata a))" by (simp add: socks_ip_def)
    moreover have "CHR '':'' \<notin> set (show4 w)" "CHR ''['' \<notin> set (show4 w)" "CHR '']'' \<notin> set (show4 w)" for w
      by (rule notin_text; simp add: digit_val_def)+
    ultimately show ?thesis
      using v4 split_host_port_plain [of "show4 (join_words (adata a))" "itoa (unat (aport a))"] no
      by (simp add: addr_text_v4 addrport_string_def addr_string_def)
  next
    case v6
    then have "socks_ip a = V6 (join_words (adata a)) []" by (simp add: socks_ip_def addr_types)
    moreover have "CHR ''['' \<notin> set (show_v6 w)" "CHR '']'' \<notin> set (show_v6 w)" for w
      by (rule notin_text; simp add: digit_val_def)+
    ultimately show ?thesis
      using v6 split_host_port_bracket [of "itoa (unat (aport a))" "show_v6 (join_words (adata a))"] no
      by (simp add: addr_text_v6 addrport_string_def addr_string_def with_zone_text_def)
  next
    case domain
    then show ?thesis using assms(2) by simp
  qed
  then show "addrport_text a = Ok (addrport_string (socks_ip a) (aport a))"
    "split_host_port (addrport_string (socks_ip a) (aport a)) = Inr (addr_string (socks_ip a), itoa (unat (aport a)))"
    by simp_all
qed

lemma network_facts:
  "getBaseProtococl (tcp_network t) = tcp_network t" "tcp_network t \<in> {''tcp'', ''tcp4'', ''tcp6''}"
  "getLookupProtocol (tcp_network t) =
     (if t = IPv4Addr then ''ip4'' else if t = IPv6Addr then ''ip6'' else ''ip'')"
  "CHR '';'' \<notin> set (tcp_network t)"
  by (auto simp: tcp_network_def getBaseProtococl_def getLookupProtocol_def)

text \<open>What the server's dialer does with the request for an address literal.\<close>

lemma ip_target_dialed:
  assumes "addr_wf a" and "atype a \<noteq> DomainAddr"
    and "Resolver s (ip_lookup a) (addr_string (socks_ip a)) = Inr [socks_ip a]"
  shows "server_dialer s (tcp_network (atype a)) (addrport_string (socks_ip a) (aport a)) =
    (if set_contains (Blocks s) (socks_ip a) then (Inl ErrIPBlocked, [])
     else (case SDialer s (tcp_network (atype a)) (addrport_string (socks_ip a) (aport a)) of
             Inl e \<Rightarrow> Inl (DialError e) | Inr c \<Rightarrow> Inr c,
           [addrport_string (socks_ip a) (aport a)]))"
proof -
  have "getLookupProtocol (tcp_network (atype a)) = ip_lookup a"
    using assms(1,2) by (auto simp: network_facts ip_lookup_def elim: addr_wf_cases)
  moreover have "parse_uint16 (itoa (unat (aport a))) = Inr (unat (aport a))"
    using port_bound by simp
  ultimately show ?thesis
    using ip_target(2) [OF assms(1,2)] network_facts(2) [of "atype a"] assms(3)
    by (auto simp: server_dialer_def resolve_and_dial_def network_facts(1) loop_result_def Let_def
        split: sum.split)
qed

section \<open>The answer on its way back\<close>

lemma server_reply:
  assumes "ready c" and "status c = StatusIdle" and "CHR '';'' \<notin> set p"
    and "fst (server_dialer s p t) = (case r of Inl e \<Rightarrow> Inl e | Inr la \<Rightarrow> Inr (Some la))"
  shows "\<exists>c'. handle_msg (server_env s) (InText (open_cmd cmdOpenStream p t)) c = (Ok (), c') \<and>
    ws_out c' = ws_out c @ [Text (case r of Inl e \<Rightarrow> reply_false (dial_error_text (Quote s) e) | Inr la \<Rightarrow> reply_true la)] \<and>
    status c' = (if isl r then StatusIdle else StatusStream)"
proof -
  let ?r = "case r of Inl e \<Rightarrow> Inl (dial_error_text (Quote s) e) | Inr la \<Rightarrow> Inr la"
  have "Dialer (server_env s) p t = answer ?r" "\<not> incoming_blocked (server_env s) p t"
    using assms(4) by (auto simp: server_env_def answer_def as_outcome_def incoming_blocked_def split: sum.splits)
  then show ?thesis
    using open_stream_branches [OF assms(1-3), of "server_env s" t ?r]
    by (cases r) (auto simp: open_reply_def reply_true_def reply_false_def cmd_defs)
qed

lemma client_dial_refused:
  assumes "pool_data (idleConns k) = xs @ [i]" and "\<not> cancelled k" and "ready (heap k i)"
    and "status (heap k i) = StatusIdle"
  shows "\<exists>k'. client_DialContext v [InText (reply_false msg)] Replied [] q t k = (Err (RemoteDialError msg), k') \<and>
    pool_data (idleConns k') = xs @ [i] \<and> streamConns k' = streamConns k \<and> status (heap k' i) = StatusIdle"
proof -
  obtain n where g: "getIdleConn k = (Ok i, k\<lparr>idleConns := (idleConns k)\<lparr>pool_data := xs\<rparr>, pending_adds := n\<rparr>)"
    using getIdleConn_last [OF assms(1)] by auto
  obtain c where dc: "DialContext (client_env v) [InText (reply_false msg)] Replied [] q t (heap k i) =
      (Err (RemoteDialError msg), c)" "status c = StatusIdle"
    using assms(3,4) by (simp add: DialContext_def link_eval ready_def)
  show ?thesis
    using assms(2) dc
    by (simp add: client_DialContext_def over_idle_conn_def sbind_def g dial_done_simps finish_call_def pool_put_def)
qed

text \<open>A CONNECT of an anonymous SOCKS5 client on a server with this handler.\<close>

lemma socks_over_client:
  assumes "anonymous_offer ss methods" and "addr_wf a" and "sv_ctx ss \<noteq> None"
    and "sk_in sock = requests methods CmdDialTCP a @ rest" and "sk_wres sock = []"
    and "fst (wss_DialTCP v before ev between a k) = r"
  shows "\<exists>c1. Socks5_Server.Handle (ss\<lparr>sv_handler := wss_handler f v before ev between k\<rparr>) up sock =
      or_error_response (as_socks f r)
        (\<lambda>t. sbind (sendResponse StatusGranted None) (\<lambda>_. relay up t)) c1 \<and>
    sk_out c1 = sk_out sock @ [Socks5Version, NoAuth] \<and> sk_in c1 = rest \<and> sk_wres c1 = [] \<and>
    cn_version c1 = Socks5Version \<and> cn_target c1 = None"
proof -
  have "anonymous_offer (ss\<lparr>sv_handler := h\<rparr>) methods" for h
    using assms(1) by (simp add: anonymous_offer_def)
  from handle_anonymous [OF this assms(2) _ assms(4,5)] show ?thesis
    using assms(3,5,6)
    by (simp add: Let_def dial_request_def log_call_def sbind_def wss_handler_def new_conn_def)
      (rule exI, rule conjI, rule refl, simp)
qed

lemma blocked_status: "error_status (OtherErr (conn_error_text (RemoteDialError ''IP is blocked''))) = StatusBlocked"
  by code_simp

section \<open>Properties\<close>


text \<open>The session of the witnesses: a CONNECT to 127.0.0.1, port 80.\<close>

definition home :: AddrPort where
  "home = \<lparr>atype = IPv4Addr, adata = [127, 0, 0, 1], aport = 80\<rparr>"

definition home_server :: "IPRuleSet option \<Rightarrow> Server_Dial.Server" where
  "home_server b = \<lparr>Resolver = (\<lambda>_ _. Inr [socks_ip home]), SDialer = (\<lambda>_ _. Inr (Some ''tcp;me'')),
     SPacketListener = (\<lambda>_ _. Inr (Some ''me'')), Blocks = b, Quote = id\<rparr>"

lemma home_facts:
  "addr_wf home" "atype home \<noteq> DomainAddr" "ready WrapConn" "status WrapConn = StatusIdle"
  "Resolver (home_server b) n h = Inr [socks_ip home]" "Blocks (home_server b) = b"
  "SDialer (home_server b) n h = Inr (Some ''tcp;me'')"
  "set_contains (Blocks a_wpn_server) (socks_ip home)"
proof -
  show "set_contains (Blocks a_wpn_server) (socks_ip home)" by code_simp
qed (simp_all add: home_def addr_wf_def addr_types ready_def WrapConn_def home_server_def)




text \<open>The text of the server's error for a protocol it does not support has a capital letter, so the
  SOCKS5 server, which looks for \<open>network\<close>, reports an unreachable host.\<close>

lemma network_unreachable_status:
  "error_status (OtherErr (conn_error_text (RemoteDialError (dial_error_text q ErrNetworkUnreachable)))) =
     StatusHostUnreachable"
proof -
  have "error_status (OtherErr (conn_error_text (RemoteDialError ''Network unreachable''))) = StatusHostUnreachable"
    by code_simp
  then show ?thesis by (simp add: dial_error_text_def)
qed

end
