(* ===== verification/Block_Rules.thy ===== *)
theory Block_Rules
  imports Ip_Rule
begin

text \<open>
  The block rules of the server command (\<open>server/main.go\<close>, \<open>server/consts.go\<close>): loading the
  rule file, creating it from the built-in text when it is missing, and what the built-in rules
  block.
\<close>

section \<open>The built-in rules\<close>

definition unlines :: "string list \<Rightarrow> string" where
  "unlines ls = concat (map (\<lambda>l. l @ [LF]) ls)"

definition defaultBlockRuleLines :: "string list" where
  "defaultBlockRuleLines =
     [''#'',
      ''# blocked IP rules'',
      ''#'',
      [],
      ''# localhost'',
      ''127.0.0.1'',
      ''::1'',
      [],
      ''# docker'',
      ''172.17.0.0/16'',
      [],
      ''# other private networks'',
      ''10.0.0.0/8'',
      ''172.16.0.0/12'',
      ''192.168.0.0/16'',
      ''fd00::/8'']"

definition defaultBlockRuleContent :: string where
  "defaultBlockRuleContent = unlines defaultBlockRuleLines"

section \<open>Loading\<close>

text \<open>
  What \<open>os.Open\<close> and then \<open>io.ReadAll\<close> give. \<open>loger.Fatalf\<close> ends the process, so a fatal branch
  is an \<open>Err\<close>; rule errors, which \<open>errors.Join\<close> makes unwrappable, are only logged.
\<close>

datatype open_result = Opened "string + string" | NotExist | OpenFailed string

datatype fatal = CannotCreate string | CannotRead string

definition loadBlockRules ::
  "open_result \<Rightarrow> string option \<Rightarrow> (fatal, IPRuleSet \<times> rule_set_error list) outcome" where
  "loadBlockRules file write_err =
     obind (case file of
              Opened content \<Rightarrow> Ok content
            | NotExist \<Rightarrow> (case write_err of
                            Some e \<Rightarrow> Err (CannotCreate e)
                          | None \<Rightarrow> Ok (Inr defaultBlockRuleContent))
            | OpenFailed e \<Rightarrow> Err (CannotRead e))
     (\<lambda>content.
        case ReadIPRuleSet content of
          (s, None) \<Rightarrow> Ok (s, [])
        | (s, Some (RulesFailed errs)) \<Rightarrow> Ok (s, errs)
        | (s, Some (ReadFailed e)) \<Rightarrow> Err (CannotRead e))"

section \<open>Reading the built-in text\<close>

lemma scan_unlines:
  assumes "\<forall>l\<in>set ls. LF \<notin> set l \<and> length l < MaxScanTokenSize"
  shows "scan_lines (unlines ls) = map dropCR ls"
  using assms by (induction ls) (simp_all add: unlines_def scan_lines_line)

lemma scan_defaults: "scan_lines defaultBlockRuleContent = defaultBlockRuleLines"
proof -
  have "\<forall>l\<in>set defaultBlockRuleLines. LF \<notin> set l \<and> length l < MaxScanTokenSize"
    by (simp add: defaultBlockRuleLines_def MaxScanTokenSize_def)
  then have "scan_lines defaultBlockRuleContent = map dropCR defaultBlockRuleLines"
    unfolding defaultBlockRuleContent_def by (rule scan_unlines)
  then show ?thesis by (simp add: defaultBlockRuleLines_def dropCR_def)
qed

lemmas netip_eval =
  rule_unmarshal_def unmarshal_prefix_def parse_prefix_def last_index_byte_def parse_addr_def
  parse_ipv4_def base_digit_def digit_val_def parse_bits_def join_words_def has_zone_def
  parse_ipv6_def v6_loop.simps v6_finish_def addr_prefix_def bit_len_def high_mask_def
  mask_eq_exp_minus_1

lemma replicate_14: "replicate 14 x = [x, x, x, x, x, x, x, x, x, x, x, x, x, x]"
  by (simp add: numeral_eq_Suc)

abbreviation include4 :: "32 word \<Rightarrow> nat \<Rightarrow> IPRule" where
  "include4 w n \<equiv> \<lparr>rprefix = prefix_from (V4 w) (int n), rnot = False\<rparr>"

abbreviation include6 :: "128 word \<Rightarrow> nat \<Rightarrow> IPRule" where
  "include6 w n \<equiv> \<lparr>rprefix = prefix_from (V6 w []) (int n), rnot = False\<rparr>"

lemma parse_default_lines:
  "rule_unmarshal ''127.0.0.1'' = Inr (include4 0x7f000001 32)"
  "rule_unmarshal ''::1'' = Inr (include6 1 128)"
  "rule_unmarshal ''172.17.0.0/16'' = Inr (include4 0xac110000 16)"
  "rule_unmarshal ''10.0.0.0/8'' = Inr (include4 0x0a000000 8)"
  "rule_unmarshal ''172.16.0.0/12'' = Inr (include4 0xac100000 12)"
  "rule_unmarshal ''192.168.0.0/16'' = Inr (include4 0xc0a80000 16)"
  "rule_unmarshal ''fd00::/8'' = Inr (include6 0xfd000000000000000000000000000000 8)"
  by (simp_all add: netip_eval replicate_14)

lemma line_result_plain:
  assumes "l \<noteq> []" and "plain_char (hd l)" and "plain_char (last l)" and "hd l \<noteq> CHR ''#''"
  shows "line_result l = Some (rule_unmarshal l)"
  using assms trim_space_plain [OF assms(1-3)] by (simp add: line_result_def)

lemma line_result_comment:
  assumes "l \<noteq> []" and "hd l = CHR ''#''" and "plain_char (last l)"
  shows "line_result l = None"
proof -
  have "trim_space l = l" using assms by (intro trim_space_plain) (simp_all add: plain_char_def)
  then show ?thesis using assms by (simp add: line_result_def)
qed

lemma line_result_Nil: "line_result [] = None"
  by (simp add: line_result_def)

lemma default_line_results:
  "map line_result defaultBlockRuleLines =
     [None, None, None, None, None,
      Some (Inr (include4 0x7f000001 32)), Some (Inr (include6 1 128)), None, None,
      Some (Inr (include4 0xac110000 16)), None, None,
      Some (Inr (include4 0x0a000000 8)), Some (Inr (include4 0xac100000 12)),
      Some (Inr (include4 0xc0a80000 16)),
      Some (Inr (include6 0xfd000000000000000000000000000000 8))]"
  unfolding defaultBlockRuleLines_def
  by (simp add: line_result_comment line_result_plain line_result_Nil plain_char_def
      parse_default_lines)

definition default_rules :: "IPRule list" where
  "default_rules =
     [include4 0x7f000001 32, include6 1 128, include4 0xac110000 16, include4 0x0a000000 8,
      include4 0xac100000 12, include4 0xc0a80000 16,
      include6 0xfd000000000000000000000000000000 8]"

lemma rules_of_lines_map:
  "map line_result ls = rs \<Longrightarrow>
   rules_of_lines ls = List.map_filter (\<lambda>x. case x of Some (Inr r) \<Rightarrow> Some r | _ \<Rightarrow> None) rs"
  unfolding rules_of_lines_def by (induction ls arbitrary: rs) (auto simp: map_filter_simps split: option.splits sum.splits)

lemma errors_of_lines_Nil:
  "list_all (\<lambda>x. case x of Some (Inl e) \<Rightarrow> False | _ \<Rightarrow> True) (map line_result ls) \<Longrightarrow>
   errors_of_lines i ls = []"
  by (induction ls arbitrary: i) (auto split: option.splits sum.splits)

lemma read_defaults: "ReadIPRuleSet (Inr defaultBlockRuleContent) = (\<lparr>rules = default_rules\<rparr>, None)"
proof -
  have "rules_of_lines defaultBlockRuleLines = default_rules"
    using rules_of_lines_map [OF default_line_results]
    by (simp add: map_filter_simps default_rules_def)
  moreover have "errors_of_lines 0 defaultBlockRuleLines = []"
    by (rule errors_of_lines_Nil) (simp add: default_line_results)
  ultimately show ?thesis
    by (simp add: ReadIPRuleSet_def set_unmarshal_eq scan_defaults NewIPRuleSet_def)
qed

section \<open>What the built-in rules block\<close>

lemma agree_on_drop:
  "agree_on n a b \<longleftrightarrow> drop_bit (LENGTH('a) - n) a = drop_bit (LENGTH('a) - n) (b :: 'a::len word)"
proof -
  let ?k = "LENGTH('a) - n"
  have "agree_on n a b \<longleftrightarrow> drop_bit ?k (a XOR b) = 0"
    by (auto simp: agree_on_def drop_bit_zero_iff bit_xor_iff simp del: drop_bit_xor)
  also have "\<dots> \<longleftrightarrow> drop_bit ?k a XOR drop_bit ?k b = 0" by simp
  also have "\<dots> \<longleftrightarrow> drop_bit ?k a = drop_bit ?k b"
    by (metis bit.xor_left_self xor.right_neutral xor_self_eq)
  finally show ?thesis .
qed

lemma include4_V4:
  "n \<le> 32 \<Longrightarrow> pfx_contains (prefix_from (V4 b) (int n)) (V4 w)
     \<longleftrightarrow> drop_bit (32 - n) w = drop_bit (32 - n) b"
  by (simp add: pfx_contains_V4 agree_on_drop)

lemma include6_V6:
  "n \<le> 128 \<Longrightarrow> pfx_contains (prefix_from (V6 b []) (int n)) (V6 w [])
     \<longleftrightarrow> drop_bit (128 - n) w = drop_bit (128 - n) b"
  by (simp add: pfx_contains_V6 agree_on_drop)

lemma default_contains_V4:
  "set_contains (Some \<lparr>rules = default_rules\<rparr>) (V4 w) \<longleftrightarrow>
     w = 0x7f000001 \<or> drop_bit 16 w = 0xac11 \<or> drop_bit 24 w = 10 \<or> drop_bit 20 w = 0xac1 \<or>
     drop_bit 16 w = 0xc0a8"
  using include4_V4 [of 32 "0x7f000001" w] include4_V4 [of 16 "0xac110000" w]
    include4_V4 [of 8 "0x0a000000" w] include4_V4 [of 12 "0xac100000" w]
    include4_V4 [of 16 "0xc0a80000" w] pfx_contains_mixed(2)
  by (simp add: set_contains_iff default_rules_def pfx_contains_mixed)

lemma default_contains_V6:
  "\<not> is4in6 w \<Longrightarrow> set_contains (Some \<lparr>rules = default_rules\<rparr>) (V6 w []) \<longleftrightarrow>
     w = 1 \<or> drop_bit 120 w = 0xfd"
  using include6_V6 [of 128 1 w] include6_V6 [of 8 "0xfd000000000000000000000000000000" w]
  by (simp add: set_contains_iff default_rules_def pfx_contains_mixed unmap_def)

lemma docker_in_private: "drop_bit 16 (w :: 32 word) = 0xac11 \<Longrightarrow> drop_bit 20 w = 0xac1"
proof -
  assume "drop_bit 16 w = 0xac11"
  then have "drop_bit 4 (drop_bit 16 w) = (0xac1 :: 32 word)" by simp
  then show ?thesis by (simp add: drop_bit_drop_bit)
qed

section \<open>Properties\<close>

text \<open>C34: With no rule file, the server starts with the built-in rules and no error, and they
  block exactly: of IPv4 the address 127.0.0.1 and the networks 10/8, 172.16/12 (the docker
  network 172.17/16 lies in it) and 192.168/16, also in IPv4-mapped form; of the other IPv6
  addresses \<open>::1\<close> and \<open>fd00::/8\<close>.\<close>

theorem default_block_rules_exact:
  "\<exists>s. loadBlockRules NotExist None = Ok (s, []) \<and>
    (\<forall>w z. set_contains (Some s) (V6 (map4in6 w) z) = set_contains (Some s) (V4 w)) \<and>
    (\<forall>w. set_contains (Some s) (V4 w) =
       (w = 0x7f000001 \<or> drop_bit 24 w = 10 \<or> drop_bit 20 w = 0xac1 \<or> drop_bit 16 w = 0xc0a8)) \<and>
    {w. is4in6 w = False \<and> set_contains (Some s) (V6 w [])} =
      {w. is4in6 w = False \<and> (w = 1 \<or> drop_bit 120 w = 0xfd)}"
proof (intro exI conjI)
  show "loadBlockRules NotExist None = Ok (\<lparr>rules = default_rules\<rparr>, [])"
    by (simp add: loadBlockRules_def read_defaults)
  show "\<forall>w z. set_contains (Some \<lparr>rules = default_rules\<rparr>) (V6 (map4in6 w) z) =
      set_contains (Some \<lparr>rules = default_rules\<rparr>) (V4 w)"
    by (metis set_contains_unmap unmap_map4in6 unmap_V4)
  show "\<forall>w. set_contains (Some \<lparr>rules = default_rules\<rparr>) (V4 w) =
      (w = 0x7f000001 \<or> drop_bit 24 w = 10 \<or> drop_bit 20 w = 0xac1 \<or> drop_bit 16 w = 0xc0a8)"
    using docker_in_private by (auto simp: default_contains_V4)
  show "{w. is4in6 w = False \<and> set_contains (Some \<lparr>rules = default_rules\<rparr>) (V6 w [])} =
      {w. is4in6 w = False \<and> (w = 1 \<or> drop_bit 120 w = 0xfd)}"
    by (auto simp: default_contains_V6)
qed

text \<open>A rule file with lines that do not parse still loads: the server starts with the rules
  of all other lines and the list of errors; only a file that cannot be read or created stops
  it.\<close>

theorem load_block_rules_tolerant:
  "loadBlockRules (Opened (Inr text)) write_err =
     Ok (\<lparr>rules = rules_of_lines (scan_lines text)\<rparr>, errors_of_lines 0 (scan_lines text)) \<and>
   loadBlockRules (Opened (Inl e)) write_err = Err (CannotRead e) \<and>
   loadBlockRules (OpenFailed e) write_err = Err (CannotRead e) \<and>
   loadBlockRules NotExist (Some e) = Err (CannotCreate e)"
  by (simp add: loadBlockRules_def ReadIPRuleSet_def set_unmarshal_eq NewIPRuleSet_def)

end
