(* ===== verification/Programs.thy ===== *)
theory Programs
  imports Ws_Socks Block_Rules
begin

text \<open>
  The programs: their configuration files (\<open>config.go\<close> of \<open>server/\<close> and \<open>client/desktop/\<close>), \<open>main\<close> of
  the server (\<open>server/main.go\<close>), which puts the block rules into the server it runs, and \<open>main\<close> of the desktop client (\<open>client/desktop/main.go\<close>), a loop over signals with a
  goroutine that pings and one that runs the SOCKS5 server; and the logger of both (\<open>logger.go\<close>).
\<close>

section \<open>Configuration\<close>

text \<open>\<open>loadConfig\<close> of both programs: the file is read, or made with the default configuration when
  there is none. \<open>unmarshal\<close> and \<open>marshal\<close> stand for \<open>encoding/json\<close>, \<open>write_file\<close> gives the error of
  writing, if there is one; the second result is what was written.\<close>

datatype read_file = FileContent string | FileNotExist | ReadFailed string

definition load_config ::
  "'c \<Rightarrow> (string \<Rightarrow> string + 'c) \<Rightarrow> ('c \<Rightarrow> string + string) \<Rightarrow> (string \<Rightarrow> string option) \<Rightarrow> read_file \<Rightarrow>
     (string + 'c) \<times> string option" where
  "load_config dflt unmarshal marshal write_file file =
     (case file of
        FileNotExist \<Rightarrow>
          (case marshal dflt of
             Inl e \<Rightarrow> (Inl e, None)
           | Inr buf \<Rightarrow>
               (case write_file buf of Some e \<Rightarrow> (Inl e, None) | None \<Rightarrow> (Inr dflt, Some buf)))
      | ReadFailed e \<Rightarrow> (Inl e, None)
      | FileContent buf \<Rightarrow> (unmarshal buf, None))"

record server_config =
  cfg_addr :: string

definition load_server_config where
  "load_server_config = load_config \<lparr>cfg_addr = '':80''\<rparr>"

record desktop_config =
  cfg_server :: string
  cfg_socksAddr :: string

definition load_desktop_config where
  "load_desktop_config =
     load_config \<lparr>cfg_server = ''ws://127.0.0.1:8095'', cfg_socksAddr = ''127.0.0.1:1080''\<rparr>"

text \<open>A first start and the one after it use the same configuration.\<close>

lemma load_config_stable:
  assumes "load_config d u m w FileNotExist = (Inr c, Some buf)" and "\<And>c buf. m c = Inr buf \<Longrightarrow> u buf = Inr c"
  shows "c = d \<and> load_config d u m w (FileContent buf) = (Inr c, None)"
  using assms by (auto simp: load_config_def split: sum.splits option.splits)

section \<open>The logger\<close>

text \<open>\<open>initLogger\<close>, the same in both programs: with \<open>DEBUG\<close> everything goes to the standard error,
  without it to a file as well, and a file that cannot be opened (\<open>open_log\<close> gives the error) ends
  the program.\<close>

datatype log_level = DebugLevel | InfoLevel

record logger =
  log_level :: log_level
  log_file :: "string option"

definition logFile :: string where "logFile = ''/var/log/wpn/server.log''"

definition DEBUG :: bool where "DEBUG = True"

definition initLogger :: "bool \<Rightarrow> (string \<Rightarrow> string option) \<Rightarrow> (string, logger) outcome" where
  "initLogger debug open_log =
     (if debug then Ok \<lparr>log_level = DebugLevel, log_file = None\<rparr>
      else case open_log logFile of
             None \<Rightarrow> Ok \<lparr>log_level = InfoLevel, log_file = Some logFile\<rparr>
           | Some e \<Rightarrow> Err (''Cannot open log file: '' @ e))"

lemma initLogger_fatal: "(\<exists>e. initLogger debug open_log = Err e) \<longleftrightarrow> \<not> debug \<and> open_log logFile \<noteq> None"
  by (simp add: initLogger_def split: option.split)

section \<open>The server\<close>

datatype listen_end = ErrServerClosed | ListenFailed string

datatype main_fatal = RulesFatal fatal | ServeFatal string

text \<open>With the server that was run; resolver and dialer are those of \<open>srv\<close>.\<close>

definition server_main ::
  "open_result \<Rightarrow> string option \<Rightarrow> Server_Dial.Server \<Rightarrow> listen_end \<Rightarrow>
     (main_fatal, unit) outcome \<times> Server_Dial.Server option" where
  "server_main file write_err srv fin =
     (case loadBlockRules file write_err of
        Ok (bl, _) \<Rightarrow>
          (case fin of ErrServerClosed \<Rightarrow> Ok () | ListenFailed e \<Rightarrow> Err (ServeFatal e),
           Some (srv\<lparr>Blocks := Some bl\<rparr>))
      | Err e \<Rightarrow> (Err (RulesFatal e), None)
      | Panic q \<Rightarrow> (Panic q, None)
      | Hang \<Rightarrow> (Hang, None))"

section \<open>The desktop client\<close>

text \<open>The goroutine that pings every ten seconds, and the refills that its calls start.\<close>

datatype tick = PingTick "conn_error option" | Refilled

fun ping_loop :: "tick list \<Rightarrow> Client \<Rightarrow> Client" where
  "ping_loop [] k = k"
| "ping_loop (PingTick r # es) k = ping_loop es (snd (client_Ping r k))"
| "ping_loop (Refilled # es) k = ping_loop es (run_pending_add k)"

text \<open>\<open>dt_bound\<close> are the addresses on which the process listens, \<open>dt_old\<close> the clients of earlier
  rounds, which keep running; \<open>bind\<close> gives the error of listening on an address.\<close>

datatype dt_end = Exit | Fatal string

record desktop =
  dt_addr :: string
  dt_client :: Client
  dt_old :: "Client list"
  dt_bound :: "string list"
  dt_end :: "dt_end option"

text \<open>A hang-up signal carries what \<open>loadConfig\<close> gives and the new client with the result of its
  first ping; every other signal shuts the SOCKS5 server down and ends the program, as does
  the end of the server of the current round.\<close>

datatype dt_event =
    ListenAndServe
  | Hangup "(string \<times> Client \<times> conn_error option) option"
  | OtherSignal
  | ServerDone

definition first_ping :: "Client \<Rightarrow> conn_error option \<Rightarrow> desktop \<Rightarrow> desktop" where
  "first_ping k r d =
     (case client_Ping r k of
        (Ok _, k') \<Rightarrow> d\<lparr>dt_client := k'\<rparr>
      | (_, k') \<Rightarrow> d\<lparr>dt_client := k', dt_end := Some (Fatal ''Cannot ping the server'')\<rparr>)"

definition desktop_start :: "string \<Rightarrow> Client \<Rightarrow> conn_error option \<Rightarrow> desktop" where
  "desktop_start a k r =
     first_ping k r \<lparr>dt_addr = a, dt_client = k, dt_old = [], dt_bound = [], dt_end = None\<rparr>"

definition desktop_step :: "(string list \<Rightarrow> string \<Rightarrow> string option) \<Rightarrow> desktop \<Rightarrow> dt_event \<Rightarrow> desktop" where
  "desktop_step bind d ev =
     (if dt_end d \<noteq> None then d
      else case ev of
        ListenAndServe \<Rightarrow>
          (case bind (dt_bound d) (dt_addr d) of
             None \<Rightarrow> d\<lparr>dt_bound := dt_addr d # dt_bound d\<rparr>
           | Some e \<Rightarrow> d\<lparr>dt_end := Some (Fatal ''Error when running Socks5 server'')\<rparr>)
      | Hangup None \<Rightarrow> d
      | Hangup (Some (a, k, r)) \<Rightarrow> first_ping k r (d\<lparr>dt_addr := a, dt_old := dt_client d # dt_old d\<rparr>)
      | OtherSignal \<Rightarrow> d\<lparr>dt_end := Some Exit\<rparr>
      | ServerDone \<Rightarrow> d\<lparr>dt_end := Some Exit\<rparr>)"

section \<open>What a server without a rule file protects\<close>

definition private_ip :: "netip_addr \<Rightarrow> bool" where
  "private_ip v =
     (case unmap v of
        V4 w \<Rightarrow> w = 0x7f000001 \<or> drop_bit 24 w = 10 \<or> drop_bit 20 w = 0xac1 \<or> drop_bit 16 w = 0xc0a8
      | V6 w z \<Rightarrow> z = [] \<and> (w = 1 \<or> drop_bit 120 w = 0xfd)
      | ZeroAddr \<Rightarrow> False)"

lemma private_blocked:
  assumes "private_ip v"
  shows "set_contains (Some \<lparr>rules = default_rules\<rparr>) v"
proof -
  have "set_contains (Some \<lparr>rules = default_rules\<rparr>) (unmap v)"
  proof (cases "unmap v")
    case (V4 w)
    then show ?thesis using assms by (auto simp: private_ip_def default_contains_V4)
  next
    case (V6 w z)
    then have "\<not> is4in6 w" by (cases v) (auto simp: unmap_def split: if_splits)
    then show ?thesis using assms V6 by (auto simp: private_ip_def default_contains_V6)
  next
    case ZeroAddr
    then show ?thesis using assms by (simp add: private_ip_def)
  qed
  then show ?thesis by (simp add: blocks.bl_unmap)
qed

section \<open>Connections lost by pings\<close>

definition is_ping :: "tick \<Rightarrow> bool" where
  "is_ping e \<longleftrightarrow> (case e of PingTick _ \<Rightarrow> True | Refilled \<Rightarrow> False)"

lemma newConn_plain:
  "ws_dials k = [] \<Longrightarrow> heap k = (\<lambda>_. WrapConn) \<Longrightarrow>
   \<exists>k'. newConn k = (Ok (fresh k), k') \<and> ws_dials k' = [] \<and> heap k' = (\<lambda>_. WrapConn)"
  by (simp add: newConn_def Let_def fun_upd_def)

lemma addIdleConn_plain:
  assumes "ws_dials k = []" and "heap k = (\<lambda>_. WrapConn)"
  shows "ws_dials (snd (addIdleConn k)) = [] \<and> heap (snd (addIdleConn k)) = (\<lambda>_. WrapConn) \<and>
    fresh (snd (addIdleConn k)) + size (pooled k) = fresh k + size (pooled (snd (addIdleConn k)))"
proof -
  from newConn_plain [OF assms] obtain k' where "newConn k = (Ok (fresh k), k')" "ws_dials k' = []" "heap k' = (\<lambda>_. WrapConn)"
    by auto
  then show ?thesis
    by (cases rule: addIdle_pools [of k]) (auto simp: addIdleConn_def sbind_def)
qed

lemma getIdleConn_plain:
  assumes "ws_dials k = []" and "heap k = (\<lambda>_. WrapConn)"
  obtains i k' where "getIdleConn k = (Ok i, k')" "ws_dials k' = []" "heap k' = (\<lambda>_. WrapConn)"
    "fresh k' + size (pooled k) = Suc (fresh k + size (pooled k'))"
proof -
  from newConn_plain [OF assms] obtain k1 where "newConn k = (Ok (fresh k), k1)" "ws_dials k1 = []" "heap k1 = (\<lambda>_. WrapConn)"
    by auto
  moreover obtain j p where "pool_take_or None (idleConns k) = (j, p)" by (cases "pool_take_or None (idleConns k)")
  ultimately have "\<exists>i k'. getIdleConn k = (Ok i, k') \<and> ws_dials k' = [] \<and> heap k' = (\<lambda>_. WrapConn)"
    using assms by (cases j) (simp_all add: getIdleConn_def)
  then obtain i k' where g: "getIdleConn k = (Ok i, k')" "ws_dials k' = []" "heap k' = (\<lambda>_. WrapConn)"
    by blast
  have "fresh k' + size (pooled k) = Suc (fresh k + size (pooled k'))"
    using getIdleConn_pools [OF g(1)] by auto
  with g show ?thesis by (rule that)
qed

lemma ping_loop_plain:
  assumes "ws_dials k = []" and "heap k = (\<lambda>_. WrapConn)" and "\<forall>e\<in>set es. e = PingTick None \<or> e = Refilled"
  shows "heap (ping_loop es k) = (\<lambda>_. WrapConn) \<and>
    fresh (ping_loop es k) + size (pooled k) =
      fresh k + size (pooled (ping_loop es k)) + length (filter is_ping es)"
  using assms
proof (induction es arbitrary: k)
  case (Cons e es)
  show ?case
  proof (cases e)
    case (PingTick r)
    then have r: "r = None" using Cons.prems(3) by simp
    obtain i k' where g: "getIdleConn k = (Ok i, k')" "ws_dials k' = []" "heap k' = (\<lambda>_. WrapConn)"
      "fresh k' + size (pooled k) = Suc (fresh k + size (pooled k'))"
      by (rule getIdleConn_plain [OF Cons.prems(1,2)])
    have "snd (client_Ping r k) = k'"
      using g(1) r by (cases k') (simp add: client_Ping_def sbind_def Ping_def close_on_err_def)
    then show ?thesis using Cons.IH [OF g(2,3)] Cons.prems(3) g(4) PingTick by (simp add: is_ping_def)
  next
    case Refilled
    let ?k = "k\<lparr>pending_adds := pending_adds k - 1\<rparr>"
    show ?thesis
    proof (cases "pending_adds k = 0")
      case True
      then show ?thesis using Cons.IH [OF Cons.prems(1,2)] Cons.prems(3) Refilled
        by (simp add: run_pending_add_def is_ping_def)
    next
      case False
      have a: "ws_dials (snd (addIdleConn ?k)) = []" "heap (snd (addIdleConn ?k)) = (\<lambda>_. WrapConn)"
        "fresh (snd (addIdleConn ?k)) + size (pooled k) = fresh k + size (pooled (snd (addIdleConn ?k)))"
        using addIdleConn_plain [of ?k] Cons.prems(1,2) by (simp_all add: pooled_def)
      then show ?thesis using Cons.IH [OF a(1,2)] Cons.prems(3) Refilled False
        by (simp add: run_pending_add_def is_ping_def)
    qed
  qed
qed simp

section \<open>Properties\<close>

text \<open>C5: A server that starts without a rule file protects its own networks. Whatever the request,
  the resolver and the dialer, the server that \<open>main\<close> runs never dials or listens on 127.0.0.1,
  an address of 10/8, 172.16/12 or 192.168/16, also in IPv4-mapped form, \<open>::1\<close> or an address of
  \<open>fd00::/8\<close>.\<close>

theorem default_server_protects_lan:
  assumes "server_main NotExist None srv fin = (r, Some s)"
    and "x \<in> set (snd (server_dialer s p t)) \<union> set (snd (pktListener s p t))"
  shows "\<exists>host ips v port. Resolver srv (getLookupProtocol (getBaseProtococl p)) host = Inr ips \<and>
    v \<in> set ips \<and> x = addrport_string v port \<and> \<not> private_ip v"
proof -
  have s: "Blocks s = Some \<lparr>rules = default_rules\<rparr>" "Resolver s = Resolver srv"
    using assms(1) by (auto simp: server_main_def loadBlockRules_def read_defaults)
  obtain host port0 port ips v where "split_host_port t = Inr (host, port0)" "parse_uint16 port0 = Inr port"
    "Resolver s (getLookupProtocol (getBaseProtococl p)) host = Inr ips"
    "v \<in> set (blocks.admitted (Blocks s) ips)" "x = addrport_string v (word_of_nat port)"
    using assms(2) by (rule dialled_admitted)
  then show ?thesis using s private_blocked by (auto simp: blocks.admitted_def)
qed

theorem default_server_protects_lan_witness:
  "\<exists>host ips v port. Resolver a_wpn_server (getLookupProtocol (getBaseProtococl ''tcp'')) host = Inr ips \<and>
    v \<in> set ips \<and> addrport_string (V4 0x01020304) 80 = addrport_string v port \<and> \<not> private_ip v"
proof (rule default_server_protects_lan)
  let ?s = "a_wpn_server\<lparr>Blocks := Some \<lparr>rules = default_rules\<rparr>\<rparr>"
  show "server_main NotExist None a_wpn_server ErrServerClosed = (Ok (), Some ?s)"
    by (simp add: server_main_def loadBlockRules_def read_defaults)
  have "set_contains (Some \<lparr>rules = default_rules\<rparr>) (V4 0x7f000001)"
    "\<not> set_contains (Some \<lparr>rules = default_rules\<rparr>) (V4 0x01020304)"
    by (simp_all add: default_contains_V4)
  moreover have "getBaseProtococl ''tcp'' = ''tcp''" by code_simp
  ultimately show "addrport_string (V4 0x01020304) 80 \<in>
      set (snd (server_dialer ?s ''tcp'' ''h:80'')) \<union> set (snd (pktListener ?s ''tcp'' ''h:80''))"
    by (simp add: server_dialer_def resolve_and_dial_def split_he port_80 a_wpn_server_def loop_result_def)
qed

text \<open>Every ping of the desktop client costs a connection. However its pings and the refills
  interleave, when all of them succeed, the connections made are those still in a pool and one more
  for each ping; none of them has been closed.\<close>

theorem desktop_pings_leak:
  assumes "\<forall>e\<in>set es. e = PingTick None \<or> e = Refilled"
  shows "heap (ping_loop es (NewClient op [])) = (\<lambda>_. WrapConn) \<and>
    fresh (ping_loop es (NewClient op [])) =
      size (pooled (ping_loop es (NewClient op []))) + length (filter is_ping es)"
proof -
  have "ws_dials (add_idle n k) = [] \<and> heap (add_idle n k) = (\<lambda>_. WrapConn) \<and>
      fresh (add_idle n k) + size (pooled k) = fresh k + size (pooled (add_idle n k))"
    if "ws_dials k = []" "heap k = (\<lambda>_. WrapConn)" for n k
    using that
  proof (induction n arbitrary: k)
    case (Suc n)
    from addIdleConn_plain [OF Suc.prems] Suc.IH [of "snd (addIdleConn k)"] show ?case by auto
  qed simp
  from this [of "bare_client op []" 5]
  have k: "ws_dials (NewClient op []) = []" "heap (NewClient op []) = (\<lambda>_. WrapConn)"
    "fresh (NewClient op []) = size (pooled (NewClient op []))"
    by (simp_all add: NewClient_def bare_client_def pooled_def pool_new_def)
  from ping_loop_plain [OF k(1,2) assms] k(3) show ?thesis by simp
qed

theorem desktop_pings_leak_witness:
  "fresh (ping_loop [PingTick None, Refilled, PingTick None] (NewClient some_opts [])) =
     size (pooled (ping_loop [PingTick None, Refilled, PingTick None] (NewClient some_opts []))) + 2"
  using desktop_pings_leak [of "[PingTick None, Refilled, PingTick None]" some_opts] by (simp add: is_ping_def)

text \<open>Reloading the configuration does not close the listener of the round before, so if the address
  of the SOCKS5 server has not changed and an address can be bound only once, the reload ends the
  process.\<close>

theorem desktop_reload_dies:
  assumes "\<And>bound a. a \<in> set bound \<Longrightarrow> bind bound a \<noteq> None" and "dt_end d = None"
    and "dt_addr d \<in> set (dt_bound d)" and "client_Ping r k = (Ok (), k')"
  shows "dt_end (desktop_step bind (desktop_step bind d (Hangup (Some (dt_addr d, k, r)))) ListenAndServe) =
    Some (Fatal ''Error when running Socks5 server'')"
proof -
  obtain e where "bind (dt_bound d) (dt_addr d) = Some e" using assms(1) [OF assms(3)] by auto
  then show ?thesis using assms(2,4) by (simp add: desktop_step_def first_ping_def)
qed

end
