(* ===== verification/Simulation.thy ===== *)
theory Simulation
  imports Main
begin

text \<open>
  Refinement of transition systems by an abstraction function: every step of the detailed system,
  from a state that satisfies its invariant, is a sequence of steps of the abstract one. What the
  abstract system can never do the detailed one then never does either.
\<close>

locale simulation =
  fixes cstep :: "'s \<Rightarrow> 's \<Rightarrow> bool"
    and astep :: "'a \<Rightarrow> 'a \<Rightarrow> bool"
    and absf :: "'s \<Rightarrow> 'a"
    and inv :: "'s \<Rightarrow> bool"
  assumes inv_step: "inv s \<Longrightarrow> cstep s s' \<Longrightarrow> inv s'"
    and sim_step: "inv s \<Longrightarrow> cstep s s' \<Longrightarrow> astep\<^sup>*\<^sup>* (absf s) (absf s')"
begin

lemma inv_run: "cstep\<^sup>*\<^sup>* s s' \<Longrightarrow> inv s \<Longrightarrow> inv s'"
  by (induction rule: rtranclp_induct) (auto intro: inv_step)

lemma sim_run: "cstep\<^sup>*\<^sup>* s s' \<Longrightarrow> inv s \<Longrightarrow> astep\<^sup>*\<^sup>* (absf s) (absf s')"
proof (induction rule: rtranclp_induct)
  case (step t u)
  have "astep\<^sup>*\<^sup>* (absf t) (absf u)" using inv_run [OF step.hyps(1) step.prems] step.hyps(2) by (rule sim_step)
  then show ?case using step.IH [OF step.prems] by (rule rtranclp_trans [rotated])
qed simp

text \<open>A property that no abstract step destroys survives every run.\<close>

lemma stable_run:
  assumes "\<And>a b. Q a \<Longrightarrow> astep a b \<Longrightarrow> Q b" and "cstep\<^sup>*\<^sup>* s s'" and "inv s" and "Q (absf s)"
  shows "Q (absf s')"
proof -
  have "Q b" if "astep\<^sup>*\<^sup>* (absf s) b" for b
    using that by (induction rule: rtranclp_induct) (auto intro: assms(1,4))
  then show ?thesis using sim_run [OF assms(2,3)] .
qed

end

end
