(* ===== verification/Client_Places.thy ===== *)
theory Client_Places
  imports Client_Pools Simulation
begin

text \<open>
  What the client promises about its connections, as an abstract machine: each connection is in
  one place and moves between places one at a time. The transition system of \<open>Client_Pools\<close>, with
  its pools, goroutines and calls, refines it.
\<close>

section \<open>The abstract machine\<close>

datatype place = Unmade | InIdle | InStream | InPacket | InCall | Lost

text \<open>What can happen to one connection: it is made, for a call or for the idle pool; a call takes
  it and gives it back, opens it or forgets it; a closed pipe brings it back; a shutdown drops
  it.\<close>

inductive place_change :: "place \<Rightarrow> place \<Rightarrow> bool" where
  made_idle: "place_change Unmade InIdle"
| made_call: "place_change Unmade InCall"
| taken: "place_change InIdle InCall"
| given_back: "place_change InCall InIdle"
| opened_stream: "place_change InCall InStream"
| opened_packet: "place_change InCall InPacket"
| forgotten: "place_change InCall Lost"
| stream_back: "place_change InStream InIdle"
| packet_back: "place_change InPacket InIdle"
| idle_dropped: "place_change InIdle Lost"
| stream_dropped: "place_change InStream Lost"
| packet_dropped: "place_change InPacket Lost"

inductive_simps place_change_Lost: "place_change Lost p"

definition place_move :: "(nat \<Rightarrow> place) \<Rightarrow> (nat \<Rightarrow> place) \<Rightarrow> bool" where
  "place_move p q \<longleftrightarrow> (\<exists>i b. place_change (p i) b \<and> q = p(i := b))"

lemma place_moveI: "place_change (p i) b \<Longrightarrow> q = p(i := b) \<Longrightarrow> place_move\<^sup>*\<^sup>* p q"
  by (rule r_into_rtranclp) (auto simp: place_move_def)

text \<open>Many connections, one after the other.\<close>

lemma place_moves:
  assumes "finite A" and "\<And>i. i \<in> A \<Longrightarrow> place_change (p i) (q i)" and "\<And>i. i \<notin> A \<Longrightarrow> q i = p i"
  shows "place_move\<^sup>*\<^sup>* p q"
  using assms
proof (induction A arbitrary: q rule: finite_induct)
  case empty
  then have "q = p" by auto
  then show ?case by simp
next
  case (insert i A)
  have "place_move\<^sup>*\<^sup>* p (q(i := p i))"
    by (rule insert.IH) (use insert in auto)
  moreover have "place_move (q(i := p i)) q"
    unfolding place_move_def using insert.prems(1) [of i] by (intro exI [of _ i] exI [of _ "q i"]) simp
  ultimately show ?case by simp
qed

lemma lost_stays: "p i = Lost \<Longrightarrow> place_move p q \<Longrightarrow> q i = Lost"
  by (auto simp: place_move_def place_change_Lost)

section \<open>Where the client has its connections\<close>

definition place_at :: "nat multiset \<Rightarrow> nat list \<Rightarrow> nat list \<Rightarrow> nat list \<Rightarrow> nat \<Rightarrow> nat \<Rightarrow> place" where
  "place_at held idle str pkt n i =
     (if n \<le> i then Unmade
      else if i \<in># held then InCall
      else if i \<in> set idle then InIdle
      else if i \<in> set str then InStream
      else if i \<in> set pkt then InPacket
      else Lost)"

definition place_of :: "client_state \<Rightarrow> nat \<Rightarrow> place" where
  "place_of s =
     place_at (snd s) (pool_data (idleConns (fst s))) (pool_data (streamConns (fst s)))
       (pool_data (packetConns (fst s))) (fresh (fst s))"

section \<open>Each step is a sequence of moves\<close>

lemma client_ok_once:
  "client_ok (k, held) \<Longrightarrow> count (mset (pool_data (idleConns k)) + mset (pool_data (streamConns k)) +
     mset (pool_data (packetConns k)) + held) i \<le> (if i < fresh k then 1 else 0)"
proof -
  assume "client_ok (k, held)"
  then have c: "\<forall>i. count (pooled k + held) i \<le> 1" "\<forall>i. i \<in># pooled k + held \<longrightarrow> i < fresh k"
    by (auto simp: client_ok_def one_place_def)
  show ?thesis
  proof (cases "i < fresh k")
    case True
    then show ?thesis using c(1) by (simp add: pooled_def)
  next
    case False
    then have "i \<notin># pooled k + held" using c(2) by auto
    then have "count (pooled k + held) i = 0" by (simp add: not_in_iff)
    then show ?thesis using False by (simp add: pooled_def)
  qed
qed

lemma newConn_places:
  assumes "newConn k = (r, k')"
  shows "idleConns k' = idleConns k \<and> streamConns k' = streamConns k \<and> packetConns k' = packetConns k \<and>
    (case r of Ok i \<Rightarrow> i = fresh k \<and> fresh k' = Suc (fresh k) | _ \<Rightarrow> fresh k' = fresh k)"
  using assms by (auto simp: newConn_def Let_def split: list.splits option.splits)

lemma getIdleConn_places:
  assumes "getIdleConn k = (r, k')"
  shows "streamConns k' = streamConns k \<and> packetConns k' = packetConns k \<and>
    (case r of
       Ok i \<Rightarrow> pool_data (idleConns k) = pool_data (idleConns k') @ [i] \<and> fresh k' = fresh k \<or>
              idleConns k' = idleConns k \<and> i = fresh k \<and> fresh k' = Suc (fresh k)
     | _ \<Rightarrow> idleConns k' = idleConns k \<and> fresh k' = fresh k)"
proof (cases "pool_data (idleConns k)" rule: rev_cases)
  case Nil
  then have t: "pool_take_or None (idleConns k) = (None, idleConns k)" by (simp add: pool_take_or_def)
  obtain r1 k1 where n: "newConn k = (r1, k1)" by (cases "newConn k")
  then have "r = r1" "idleConns k' = idleConns k1" "streamConns k' = streamConns k1"
    "packetConns k' = packetConns k1" "fresh k' = fresh k1"
    using assms t by (auto simp: getIdleConn_def split: if_splits)
  then show ?thesis using newConn_places [OF n] by (auto split: outcome.splits)
next
  case (snoc xs i)
  then show ?thesis using getIdleConn_last [OF snoc] assms by auto
qed

lemma addIdleConn_places:
  "streamConns (snd (addIdleConn k)) = streamConns k \<and> packetConns (snd (addIdleConn k)) = packetConns k \<and>
   (idleConns (snd (addIdleConn k)) = idleConns k \<and> fresh (snd (addIdleConn k)) = fresh k \<or>
    pool_data (idleConns (snd (addIdleConn k))) = pool_data (idleConns k) @ [fresh k] \<and>
    fresh (snd (addIdleConn k)) = Suc (fresh k))"
proof -
  obtain r k1 where n: "newConn k = (r, k1)" by (cases "newConn k")
  then show ?thesis
    using newConn_places [OF n] by (cases r) (auto simp: addIdleConn_def sbind_def pool_put_def)
qed

lemma finish_call_places:
  "idleConns (snd (finish_call i r k)) = idleConns k" "streamConns (snd (finish_call i r k)) = streamConns k"
  "packetConns (snd (finish_call i r k)) = packetConns k" "fresh (snd (finish_call i r k)) = fresh k"
  by (simp_all add: finish_call_def split: prod.split outcome.split)

lemma put_from_places:
  assumes "pool_put_from i d s = (Ok (d', s') :: (conn_error, _) outcome)"
  shows "pool_data d' = pool_data d @ [i]" and "add_mset i (mset (pool_data s')) = mset (pool_data s)"
proof -
  have "i \<in># mset (pool_data s)" "d' = pool_put i d" "s' = fst (pool_remove i s)"
    using assms pool_remove_flag [of i s] by (auto simp: pool_put_from_def split: prod.splits if_splits)
  then show "pool_data d' = pool_data d @ [i]" "add_mset i (mset (pool_data s')) = mset (pool_data s)"
    by (simp_all add: pool_put_def pool_remove_mset)
qed

text \<open>The pools and the hands of the calls are apart, and everything in them has been made.\<close>

lemma one_of_four:
  assumes "a + b + c + d \<le> (if P then 1 else (0 :: nat))"
  shows "(0 < d \<longrightarrow> \<not> 0 < d - 1 \<and> \<not> 0 < a \<and> \<not> 0 < b \<and> \<not> 0 < c \<and> P) \<and>
    (0 < a \<longrightarrow> \<not> 0 < d \<and> \<not> 0 < b \<and> \<not> 0 < c \<and> P) \<and>
    (0 < b \<longrightarrow> \<not> 0 < d \<and> \<not> 0 < c \<and> P) \<and> (0 < c \<longrightarrow> \<not> 0 < d \<and> P)"
  using assms by (cases P) auto

lemma client_ok_apart:
  assumes "client_ok (k, held)"
  shows "i \<in># held \<Longrightarrow> i \<notin># held - {#i#} \<and> i \<notin> set (pool_data (idleConns k)) \<and>
      i \<notin> set (pool_data (streamConns k)) \<and> i \<notin> set (pool_data (packetConns k)) \<and> i < fresh k"
    and "i \<in> set (pool_data (idleConns k)) \<Longrightarrow> i \<notin># held \<and> i \<notin> set (pool_data (streamConns k)) \<and>
      i \<notin> set (pool_data (packetConns k)) \<and> i < fresh k"
    and "i \<in> set (pool_data (streamConns k)) \<Longrightarrow> i \<notin># held \<and> i \<notin> set (pool_data (packetConns k)) \<and> i < fresh k"
    and "i \<in> set (pool_data (packetConns k)) \<Longrightarrow> i \<notin># held \<and> i < fresh k"
proof -
  have c: "count (mset (pool_data (idleConns k))) i + count (mset (pool_data (streamConns k))) i +
     count (mset (pool_data (packetConns k))) i + count held i \<le> (if i < fresh k then 1 else 0)"
    using client_ok_once [OF assms, of i] by simp
  have m: "i \<in> set xs \<longleftrightarrow> 0 < count (mset xs) i" for xs by (simp flip: set_mset_mset)
  have h: "i \<in># held \<longleftrightarrow> 0 < count held i" "i \<in># held - {#i#} \<longleftrightarrow> 0 < count held i - 1"
    by (simp_all flip: count_greater_zero_iff)
  show "i \<in># held \<Longrightarrow> i \<notin># held - {#i#} \<and> i \<notin> set (pool_data (idleConns k)) \<and>
      i \<notin> set (pool_data (streamConns k)) \<and> i \<notin> set (pool_data (packetConns k)) \<and> i < fresh k"
    "i \<in> set (pool_data (idleConns k)) \<Longrightarrow> i \<notin># held \<and> i \<notin> set (pool_data (streamConns k)) \<and>
      i \<notin> set (pool_data (packetConns k)) \<and> i < fresh k"
    "i \<in> set (pool_data (streamConns k)) \<Longrightarrow> i \<notin># held \<and> i \<notin> set (pool_data (packetConns k)) \<and> i < fresh k"
    "i \<in> set (pool_data (packetConns k)) \<Longrightarrow> i \<notin># held \<and> i < fresh k"
    unfolding m h using one_of_four [OF c] by blast+
qed

lemma one_move:
  assumes "place_change (p i) (q i)" and "\<And>j. j \<noteq> i \<Longrightarrow> q j = p j"
  shows "place_move\<^sup>*\<^sup>* p q"
  using place_moves [of "{i}" p q] assms by simp

text \<open>Dropping connections from the pools.\<close>

lemma drop_moves:
  assumes "client_ok (k, held)" and "fresh k' = fresh k"
    and "set (pool_data (idleConns k')) \<subseteq> set (pool_data (idleConns k))"
    and "set (pool_data (streamConns k')) \<subseteq> set (pool_data (streamConns k))"
    and "set (pool_data (packetConns k')) \<subseteq> set (pool_data (packetConns k))"
  shows "place_move\<^sup>*\<^sup>* (place_of (k, held)) (place_of (k', held))"
proof (rule place_moves)
  let ?A = "{i. place_of (k', held) i \<noteq> place_of (k, held) i}"
  have in_pools: "place_of (k', held) i = Lost \<and>
      place_of (k, held) i \<in> {InIdle, InStream, InPacket} \<and>
      i \<in> set (pool_data (idleConns k)) \<union> set (pool_data (streamConns k)) \<union> set (pool_data (packetConns k))"
    if "i \<in> ?A" for i
    using that assms(2) subsetD [OF assms(3), of i] subsetD [OF assms(4), of i] subsetD [OF assms(5), of i]
      client_ok_apart(2-4) [OF assms(1), of i]
    by (simp add: place_of_def place_at_def split: if_splits)
  then show "place_change (place_of (k, held) i) (place_of (k', held) i)" if "i \<in> ?A" for i
    using in_pools [OF that] by (auto intro: place_change.intros)
  show "finite ?A"
    by (rule finite_subset [of _ "set (pool_data (idleConns k)) \<union> set (pool_data (streamConns k)) \<union>
      set (pool_data (packetConns k))"]) (use in_pools in auto)
qed simp

text \<open>The end of a call moves its connection out of the hands of the call.\<close>

lemma call_end_moves:
  assumes "client_ok (k, held)" and "i \<in># held" and "fresh k' = fresh k"
    and "(pool_data (idleConns k'), pool_data (streamConns k'), pool_data (packetConns k')) \<in>
      {(pool_data (idleConns k) @ [i], pool_data (streamConns k), pool_data (packetConns k)),
       (pool_data (idleConns k), pool_data (streamConns k) @ [i], pool_data (packetConns k)),
       (pool_data (idleConns k), pool_data (streamConns k), pool_data (packetConns k) @ [i]),
       (pool_data (idleConns k), pool_data (streamConns k), pool_data (packetConns k))}"
  shows "place_move\<^sup>*\<^sup>* (place_of (k, held)) (place_of (k', held - {#i#}))"
proof (rule one_move)
  have i: "i \<notin># held - {#i#}" "i \<notin> set (pool_data (idleConns k))" "i \<notin> set (pool_data (streamConns k))"
    "i \<notin> set (pool_data (packetConns k))" "i < fresh k"
    using client_ok_apart(1) [OF assms(1,2)] by simp_all
  then have "place_of (k, held) i = InCall" using assms(2) by (simp add: place_of_def place_at_def)
  moreover have "place_of (k', held - {#i#}) i \<in> {InIdle, InStream, InPacket, Lost}"
    using i assms(3,4) by (auto simp: place_of_def place_at_def)
  ultimately show "place_change (place_of (k, held) i) (place_of (k', held - {#i#}) i)"
    by (auto intro: place_change.intros)
  fix j
  assume "j \<noteq> i"
  then have "j \<in># held - {#i#} \<longleftrightarrow> j \<in># held" by (simp add: in_diff_count flip: count_greater_zero_iff)
  then show "place_of (k', held - {#i#}) j = place_of (k, held) j"
    using assms(3,4) \<open>j \<noteq> i\<close> by (auto simp: place_of_def place_at_def)
qed

lemma shutdown_abort_subsets:
  "fresh (snd (shutdown_abort k)) = fresh k \<and>
   set (pool_data (idleConns (snd (shutdown_abort k)))) \<subseteq> set (pool_data (idleConns k)) \<and>
   set (pool_data (streamConns (snd (shutdown_abort k)))) \<subseteq> set (pool_data (streamConns k)) \<and>
   set (pool_data (packetConns (snd (shutdown_abort k)))) \<subseteq> set (pool_data (packetConns k))"
  using shutdown_abort_states [of k] by (auto simp: pool_new_def)

lemma client_step_moves:
  "client_step s s' \<Longrightarrow> client_ok s \<Longrightarrow> place_move\<^sup>*\<^sup>* (place_of s) (place_of s')"
proof (induction rule: client_step.induct)
  case (take k i k' held)
  show ?case
  proof (rule one_move)
    show "place_change (place_of (k, held) i) (place_of (k', add_mset i held) i)"
    proof (cases "pool_data (idleConns k) = pool_data (idleConns k') @ [i] \<and> fresh k' = fresh k")
      case True
      then have "place_of (k, held) i = InIdle" "place_of (k', add_mset i held) i = InCall"
        using client_ok_apart(2) [OF take(2), of i] by (simp_all add: place_of_def place_at_def)
      then show ?thesis by (simp add: taken)
    next
      case False
      then have "i = fresh k" "fresh k' = Suc (fresh k)" using getIdleConn_places [OF take(1)] by auto
      then have "place_of (k, held) i = Unmade" "place_of (k', add_mset i held) i = InCall"
        by (simp_all add: place_of_def place_at_def)
      then show ?thesis by (simp add: made_call)
    qed
    show "place_of (k', add_mset i held) j = place_of (k, held) j" if "j \<noteq> i" for j
      using that getIdleConn_places [OF take(1)] by (auto simp: place_of_def place_at_def)
  qed
next
  case (take_error k e k' held)
  then show ?case using getIdleConn_places [OF take_error(1)] by (simp add: place_of_def)
next
  case (conn k held i c)
  then show ?case by (simp add: place_of_def)
next
  case (call_end i held r p e k kind)
  show ?case
    by (rule call_end_moves [OF call_end(3,1) dial_done_pools(2) [OF call_end(2)]])
      (use call_end(2) in \<open>cases kind; auto simp: dial_done_simps finish_call_places pool_put_def\<close>)
next
  case (ping_end i held k)
  then show ?case by (intro call_end_moves) simp_all
next
  case (refill k held)
  let ?k = "k\<lparr>pending_adds := pending_adds k - 1\<rparr>"
  show ?case
  proof (cases "pending_adds k = 0")
    case True
    then show ?thesis by (simp add: run_pending_add_def)
  next
    case False
    have a: "place_change (place_of (k, held) (fresh k)) (place_of (snd (addIdleConn ?k), held) (fresh k)) \<or>
        place_of (snd (addIdleConn ?k), held) = place_of (k, held)"
      using addIdleConn_places [of ?k] client_ok_apart [OF refill, of "fresh k"]
      by (auto simp: place_of_def place_at_def intro: place_change.intros)
    moreover have "place_of (snd (addIdleConn ?k), held) j = place_of (k, held) j" if "j \<noteq> fresh k" for j
      using that addIdleConn_places [of ?k] by (auto simp: place_of_def place_at_def)
    ultimately show ?thesis using False by (auto simp: run_pending_add_def intro: one_move)
  qed
next
  case (watcher n k r k' held)
  from watcher(1) show ?case
  proof (cases rule: run_watcher_cases)
    case (stream i w d s)
    note m = put_from_places [OF stream(1)]
    have i: "i \<in> set (pool_data (streamConns k))" using m(2) by (metis set_mset_mset union_single_eq_member)
    show ?thesis
    proof (rule one_move)
      show "place_change (place_of (k, held) i) (place_of (k', held) i)"
        using i m(1) stream(2) client_ok_apart(2,3) [OF watcher(2), of i]
        by (auto simp: place_of_def place_at_def intro: place_change.intros)
      fix j
      assume "j \<noteq> i"
      then have "j \<in> set (pool_data s) \<longleftrightarrow> j \<in> set (pool_data (streamConns k))"
        using arg_cong [OF m(2), of set_mset] by auto
      then show "place_of (k', held) j = place_of (k, held) j"
        using \<open>j \<noteq> i\<close> m(1) stream(2) by (simp add: place_of_def place_at_def)
    qed
  next
    case (packet i w d s)
    note m = put_from_places [OF packet(1)]
    have i: "i \<in> set (pool_data (packetConns k))" using m(2) by (metis set_mset_mset union_single_eq_member)
    show ?thesis
    proof (rule one_move)
      show "place_change (place_of (k, held) i) (place_of (k', held) i)"
        using i m(1) packet(2) client_ok_apart(2-4) [OF watcher(2), of i]
        by (auto simp: place_of_def place_at_def intro: place_change.intros)
      fix j
      assume "j \<noteq> i"
      then have "j \<in> set (pool_data s) \<longleftrightarrow> j \<in> set (pool_data (packetConns k))"
        using arg_cong [OF m(2), of set_mset] by auto
      then show "place_of (k', held) j = place_of (k, held) j"
        using \<open>j \<noteq> i\<close> m(1) packet(2) by (simp add: place_of_def place_at_def)
    qed
  qed (simp_all add: place_of_def)
next
  case (user k held i pi)
  then show ?case by (simp add: user_close_def place_of_def)
next
  case (stop k held)
  then show ?case by (simp add: client_cancel_def place_of_def)
next
  case (poll k held)
  then show ?case by (intro drop_moves) (simp_all add: closing_frames pool_new_def)
next
  case (abort k held)
  then show ?case using shutdown_abort_subsets [of k] by (intro drop_moves) simp_all
qed

interpretation places: simulation client_step place_move place_of client_ok
  by unfold_locales (auto intro: client_step_ok client_step_moves)

section \<open>Properties\<close>

text \<open>C7: The client refines the machine of places. Whatever the interleaving of calls, pings,
  refills, goroutines, closing pipes and shutting down, every run from a reachable state is, seen
  as the places of the connections, a sequence of single moves that the abstract machine allows: a
  connection is made once, is used by a call only after it was idle or new, is in an active pool
  only from the hands of a call, and comes back to the idle pool only from there.\<close>

theorem client_refines_places:
  assumes "client_reachable s" and "client_step\<^sup>*\<^sup>* s s'"
  shows "place_move\<^sup>*\<^sup>* (place_of s) (place_of s')"
  using places.sim_run [OF assms(2) client_reachable_ok [OF assms(1)]] .

theorem client_refines_places_witness:
  "place_move\<^sup>*\<^sup>* (place_of (new_client, {#})) (place_of (taken_client, {#4#}))"
proof (rule client_refines_places)
  show "client_reachable (new_client, {#})" unfolding new_client_def by (rule client_reachable_new)
  show "client_step\<^sup>*\<^sup>* (new_client, {#}) (taken_client, {#4#})"
    using client_step.take [OF taken_client_eq, of "{#}"]
    by (intro r_into_rtranclp) (simp add: taken_client_def taken_client_eq)
qed

text \<open>C38: What is lost stays lost. A connection that was made and is in no pool and in no call's hands
  (as after a ping) is never pooled or used again, whatever happens next.\<close>

theorem client_lost_stays_lost:
  assumes "client_reachable (k, held)" and "client_step\<^sup>*\<^sup>* (k, held) (k', held')"
    and "i < fresh k" and "i \<notin># pooled k + held"
  shows "i \<notin># pooled k' + held' \<and> i < fresh k'"
proof -
  have "place_of (k, held) i = Lost"
    using assms(3,4) by (auto simp: place_of_def place_at_def pooled_def)
  then have "place_of (k', held') i = Lost"
    using places.stable_run [of "\<lambda>p. p i = Lost", OF _ assms(2) client_reachable_ok [OF assms(1)]] lost_stays
    by blast
  then show ?thesis by (auto simp: place_of_def place_at_def pooled_def split: if_splits)
qed

theorem client_lost_stays_lost_witness:
  "4 \<notin># pooled (run_pending_add taken_client) + {#} \<and> 4 < fresh (run_pending_add taken_client)"
proof (rule client_lost_stays_lost)
  have n: "client_reachable (new_client, {#})"
    unfolding new_client_def by (rule client_reachable_new)
  have t: "client_step (new_client, {#}) (taken_client, {#4#})"
    using client_step.take [OF taken_client_eq, of "{#}"] by (simp add: taken_client_def taken_client_eq)
  have e: "client_step (taken_client, {#4#}) (taken_client, {#4#} - {#4#})"
    by (rule client_step.ping_end) simp
  show "client_reachable (taken_client, {#})"
    using client_reachable_step [OF client_reachable_step [OF n t] e] by (simp only: diff_self cancel_comm_monoid_add_class.diff_cancel)
  show "client_step\<^sup>*\<^sup>* (taken_client, {#}) (run_pending_add taken_client, {#})"
    by (intro r_into_rtranclp client_step.refill)
  show "4 < fresh taken_client" "4 \<notin># pooled taken_client + {#}"
    by (simp_all add: taken_client_def taken_client_eq pooled_def new_client_facts pool_new_def)
qed

end
