(* ===== verification/Wire_Packets.thy ===== *)
theory Wire_Packets
  imports Wire_Session "HOL-Library.Multiset"
begin

text \<open>
  The packet mode of a link: what the server's \<open>servePacket\<close> reads from its socket travels as
  frames, arrives at the client as goroutines that offer packets to the channel of \<open>packetChCap\<close>
  places, and ends in the user's \<open>ReadFrom\<close>. The lemmas follow the packets through these places
  for every interleaving.
\<close>

section \<open>The places of a packet\<close>

text \<open>What \<open>ReadFrom\<close> returns for a packet sent from \<open>a\<close> with data \<open>d\<close>, and for a packet of the
  channel.\<close>

definition received :: "stringAddr \<times> bytes \<Rightarrow> bytes \<times> stringAddr \<times> io_error option" where
  "received ad = (take (4096 - header_size (fst ad)) (snd ad), fst ad, None)"

definition as_read :: "packetDataT \<Rightarrow> bytes \<times> stringAddr \<times> io_error option" where
  "as_read d = (pk_buf d, pk_addr d, pk_err d)"

definition queued :: "Conn \<Rightarrow> packetDataT list" where
  "queued c = (case packetDataCh c of None \<Rightarrow> [] | Some q \<Rightarrow> q)"

text \<open>The packets that the client holds, in the order in which they came through the channel,
  those in front first.\<close>

definition inside :: "link \<Rightarrow> (bytes \<times> stringAddr \<times> io_error option) list" where
  "inside l = got l @ map as_read (queued (cl l) @ blocked (cl l))"

definition small_addr :: "stringAddr \<Rightarrow> bool" where
  "small_addr a \<longleftrightarrow> length (sa_network a) < 256 \<and> length (sa_addr a) < 256"

text \<open>The events of the data phase: the server's socket delivers a packet, a frame arrives, a
  goroutine runs, the user reads with a buffer that holds every packet.\<close>

fun packet_event :: "event \<Rightarrow> bool" where
  "packet_event (SPacket (PData a d)) = small_addr a"
| "packet_event ToClient = True"
| "packet_event (CSender i) = True"
| "packet_event (CReadFrom n) = (4096 \<le> n)"
| "packet_event _ = False"

fun sent_by :: "event \<Rightarrow> (stringAddr \<times> bytes) list" where
  "sent_by (SPacket (PData a d)) = [(a, d)]"
| "sent_by _ = []"

definition sent :: "event list \<Rightarrow> (stringAddr \<times> bytes) list" where
  "sent evs = concat (map sent_by evs)"

definition frame_of :: "stringAddr \<times> bytes \<Rightarrow> ws_msg" where
  "frame_of ad = Binary (packet_frame (fst ad) (snd ad))"

section \<open>The state of the data phase\<close>

text \<open>\<open>ads\<close> is what was sent, \<open>k\<close> how much of it has arrived, \<open>w\<close> what the server had written
  before.\<close>

definition packet_state :: "ws_msg list \<Rightarrow> (stringAddr \<times> bytes) list \<Rightarrow> nat \<Rightarrow> link \<Rightarrow> bool" where
  "packet_state w ads k l \<longleftrightarrow>
     status (cl l) = StatusPacket \<and> \<not> locked (cl l) \<and> packetDataCh (cl l) = Some (queued (cl l)) \<and>
     (\<exists>p. ppipe l = Some p \<and> pp_open p) \<and> ws_wres (sv l) = [] \<and>
     ws_out (sv l) = w @ map frame_of ads \<and> to_cl l = length w + k \<and> k \<le> length ads \<and>
     (\<forall>x\<in>set ads. small_addr (fst x)) \<and>
     length (queued (cl l)) \<le> packetChCap \<and> (blocked (cl l) \<noteq> [] \<longrightarrow> length (queued (cl l)) = packetChCap) \<and>
     (\<forall>d\<in>set (spawned (cl l) @ queued (cl l) @ blocked (cl l)). length (pk_buf d) \<le> 4096)"

lemma arrives:
  assumes "packet_state w ads k l" and "k < length ads"
  shows "\<exists>d. as_read d = received (ads ! k) \<and> length (pk_buf d) \<le> 4096 \<and>
    link_step cv v l ToClient =
      l\<lparr>cl := (cl l)\<lparr>spawned := spawned (cl l) @ [d]\<rparr>, to_cl := Suc (to_cl l), outs := outs l @ [Ok ()]\<rparr>"
proof -
  obtain a d where ad: "ads ! k = (a, d)" by fastforce
  then have a: "length (sa_network a) < 256" "length (sa_addr a) < 256"
    using assms nth_mem by (fastforce simp: packet_state_def small_addr_def)+
  have "ws_out (sv l) ! to_cl l = Binary (packet_frame a d)" "to_cl l < length (ws_out (sv l))"
    using assms ad by (simp_all add: packet_state_def nth_append frame_of_def)
  then show ?thesis
    using assms(1) read_packet_one_chunk [OF a, of d] ad
    by (intro exI [of _ "\<lparr>pk_addr = a, pk_buf = take (4096 - header_size a) d, pk_err = None\<rparr>"])
      (simp add: packet_state_def link_step_def incoming_of_def handle_msg_def handleBinary_def with_lock_def
        run_binary_def packet_outcome_def as_read_def received_def min_le_iff_disj)
qed

lemma nothing_arrives:
  assumes "packet_state w ads k l" and "\<not> k < length ads"
  shows "link_step cv v l ToClient = l"
  using assms by (simp add: packet_state_def link_step_def)

lemma server_sends:
  assumes "packet_state w ads k l"
  shows "link_step cv v l (SPacket (PData a d)) =
    l\<lparr>sv := (sv l)\<lparr>ws_out := ws_out (sv l) @ [frame_of (a, d)]\<rparr>, outs := outs l @ [Ok ()]\<rparr>"
  using assms
  by (simp add: packet_state_def link_step_def packet_round_def sendPacketData_def close_on_err_def ws_write_def
      frame_of_def)

lemma sender_runs:
  assumes "packet_state w ads k l"
  shows "link_step cv v l (CSender i) =
    (if i < length (spawned (cl l)) then
       l\<lparr>cl := (cl l)\<lparr>spawned := remove_at i (spawned (cl l)),
            packetDataCh := Some (if length (queued (cl l)) < packetChCap
              then queued (cl l) @ [spawned (cl l) ! i] else queued (cl l)),
            blocked := (if length (queued (cl l)) < packetChCap
              then blocked (cl l) else blocked (cl l) @ [spawned (cl l) ! i])\<rparr>, outs := outs l @ [Ok ()]\<rparr>
     else l\<lparr>outs := outs l @ [Ok ()]\<rparr>)"
  using assms by (auto simp: packet_state_def link_step_def run_sender_def Let_def)

lemma user_reads:
  assumes "packet_state w ads k l" and "4096 \<le> n"
  shows "link_step cv v l (CReadFrom n) =
    (case queued (cl l) of
       [] \<Rightarrow> l\<lparr>outs := outs l @ [Hang]\<rparr>
     | d # q \<Rightarrow> l\<lparr>cl := (cl l)\<lparr>packetDataCh := Some (q @ take 1 (blocked (cl l))), blocked := drop 1 (blocked (cl l))\<rparr>,
           got := got l @ [as_read d], outs := outs l @ [Ok ()]\<rparr>)"
proof -
  obtain p where p: "ppipe l = Some p" "pp_open p" "packetDataCh (cl l) = Some (queued (cl l))"
    using assms(1) by (auto simp: packet_state_def)
  have b: "length (pk_buf d) \<le> n" if "d \<in> set (queued (cl l))" for d
    using assms that by (auto simp: packet_state_def intro: order_trans [of _ 4096])
  show ?thesis
    using p b by (cases "queued (cl l)"; cases "blocked (cl l)")
      (simp_all add: link_step_def pp_ReadFrom_def void_def as_read_def)
qed

section \<open>Every step keeps the account\<close>

definition held :: "link \<Rightarrow> (bytes \<times> stringAddr \<times> io_error option) list" where
  "held l = inside l @ map as_read (spawned (cl l))"

lemmas packet_parts = packet_state_def held_def inside_def queued_def

text \<open>An event takes the state on, and the packets held follow those that have arrived: as a bag
  always, in order unless a goroutine overtakes an older one.\<close>

definition in_step :: "event \<Rightarrow> (stringAddr \<times> bytes) list \<Rightarrow> nat \<Rightarrow> link \<Rightarrow> (stringAddr \<times> bytes) list \<Rightarrow> nat \<Rightarrow> link \<Rightarrow> bool" where
  "in_step ev ads k l ads' k' l' \<longleftrightarrow>
     (mset (held l) = mset (map received (take k ads)) \<longrightarrow> mset (held l') = mset (map received (take k' ads'))) \<and>
     (held l = map received (take k ads) \<longrightarrow> (\<forall>i. ev \<noteq> CSender (Suc i)) \<longrightarrow> held l' = map received (take k' ads'))"

lemma packet_step_arrive:
  assumes "packet_state w ads k l" and "k < length ads"
  shows "packet_state w ads (Suc k) (link_step cv v l ToClient) \<and>
    in_step ToClient ads k l ads (Suc k) (link_step cv v l ToClient)"
proof -
  obtain d where d: "as_read d = received (ads ! k)" "length (pk_buf d) \<le> 4096"
    "link_step cv v l ToClient =
      l\<lparr>cl := (cl l)\<lparr>spawned := spawned (cl l) @ [d]\<rparr>, to_cl := Suc (to_cl l), outs := outs l @ [Ok ()]\<rparr>"
    using arrives [OF assms] by blast
  show ?thesis
    unfolding d(3) using assms d(1,2) by (auto simp: packet_parts in_step_def take_Suc_conv_app_nth)
qed

lemma packet_step_send:
  assumes "packet_state w ads k l" and "small_addr a"
  shows "packet_state w (ads @ [(a, d)]) k (link_step cv v l (SPacket (PData a d))) \<and>
    in_step (SPacket (PData a d)) ads k l (ads @ [(a, d)]) k (link_step cv v l (SPacket (PData a d)))"
  unfolding server_sends [OF assms(1)] using assms by (auto simp: packet_parts in_step_def)

lemma packet_step_sender:
  assumes "packet_state w ads k l"
  shows "packet_state w ads k (link_step cv v l (CSender i)) \<and>
    in_step (CSender i) ads k l ads k (link_step cv v l (CSender i))"
proof (cases "i < length (spawned (cl l))")
  case True
  let ?l = "link_step cv v l (CSender i)" and ?d = "spawned (cl l) ! i"
  have d: "?d \<in> set (spawned (cl l))" using True by simp
  have b: "blocked (cl l) \<noteq> [] \<Longrightarrow> \<not> length (queued (cl l)) < packetChCap"
    using assms by (simp add: packet_state_def)
  have "packet_state w ads k ?l"
    unfolding sender_runs [OF assms] using assms True d set_remove_at [of i "spawned (cl l)"]
    by (auto simp: packet_state_def queued_def)
  moreover have i: "inside ?l = inside l @ [as_read ?d]"
    unfolding sender_runs [OF assms] using True b by (cases "blocked (cl l)") (auto simp: inside_def queued_def)
  moreover have s: "spawned (cl ?l) = remove_at i (spawned (cl l))"
    unfolding sender_runs [OF assms] using True by simp
  moreover have "mset (held ?l) = mset (held l)"
    using mset_remove_at [OF True, THEN arg_cong, of "image_mset as_read"] by (simp add: held_def i s)
  moreover have "held ?l = held l" if "i = 0"
    using True that i s by (cases "spawned (cl l)") (simp_all add: held_def)
  ultimately show ?thesis by (cases i) (auto simp: in_step_def)
next
  case False
  then show ?thesis
    unfolding sender_runs [OF assms] using assms by (auto simp: packet_parts in_step_def)
qed

lemma packet_step_read:
  assumes "packet_state w ads k l" and "4096 \<le> n"
  shows "packet_state w ads k (link_step cv v l (CReadFrom n)) \<and>
    in_step (CReadFrom n) ads k l ads k (link_step cv v l (CReadFrom n))"
proof (cases "queued (cl l)")
  case Nil
  then show ?thesis
    unfolding user_reads [OF assms] using assms(1) by (auto simp: packet_parts in_step_def)
next
  case (Cons d q)
  let ?l = "link_step cv v l (CReadFrom n)"
  have h: "held ?l = held l"
    unfolding user_reads [OF assms] using Cons assms(1)
    by (cases "blocked (cl l)") (auto simp: packet_parts)
  have "packet_state w ads k ?l"
    unfolding user_reads [OF assms] using Cons assms(1)
    by (cases "blocked (cl l)") (auto simp: packet_state_def queued_def)
  then show ?thesis using h by (simp add: in_step_def)
qed

lemma packet_step:
  assumes "packet_state w ads k l" and "packet_event ev"
  shows "\<exists>k'. packet_state w (ads @ sent_by ev) k' (link_step cv v l ev) \<and>
    in_step ev ads k l (ads @ sent_by ev) k' (link_step cv v l ev)"
proof -
  consider (send) a d where "ev = SPacket (PData a d)" "small_addr a" | (arrive) "ev = ToClient"
    | (sender) i where "ev = CSender i" | (read) n where "ev = CReadFrom n" "4096 \<le> n"
    using assms(2) by (cases ev rule: packet_event.cases) simp_all
  then show ?thesis
  proof cases
    case send
    then show ?thesis using packet_step_send [OF assms(1), of a d cv v] by auto
  next
    case arrive
    show ?thesis
    proof (cases "k < length ads")
      case True
      then show ?thesis using packet_step_arrive [OF assms(1), of cv v] arrive by auto
    next
      case False
      then show ?thesis
        using nothing_arrives [OF assms(1) False] assms(1) arrive
        by (intro exI [of _ k]) (auto simp: packet_parts in_step_def)
    qed
  next
    case sender
    then show ?thesis using packet_step_sender [OF assms(1), of cv v i] by auto
  next
    case read
    then show ?thesis using packet_step_read [OF assms(1), of n cv v] by auto
  qed
qed

lemma packet_run:
  assumes "packet_state w ads k l" and "\<forall>ev\<in>set evs. packet_event ev"
  shows "\<exists>k' l'. link_run cv v evs l = l' \<and> packet_state w (ads @ sent evs) k' l' \<and>
    (mset (held l) = mset (map received (take k ads)) \<longrightarrow>
       mset (held l') = mset (map received (take k' (ads @ sent evs)))) \<and>
    (held l = map received (take k ads) \<longrightarrow> (\<forall>i. CSender (Suc i) \<notin> set evs) \<longrightarrow>
       held l' = map received (take k' (ads @ sent evs)))"
  using assms
proof (induction evs arbitrary: ads k l)
  case Nil
  then show ?case by (auto simp: link_run_Nil sent_def)
next
  case (Cons ev evs)
  obtain k1 where k1: "packet_state w (ads @ sent_by ev) k1 (link_step cv v l ev)"
    "in_step ev ads k l (ads @ sent_by ev) k1 (link_step cv v l ev)"
    using packet_step [OF Cons.prems(1), of ev cv v] Cons.prems(2) by auto
  have s: "sent (ev # evs) = sent_by ev @ sent evs" by (simp add: sent_def)
  from Cons.IH [OF k1(1)] obtain k' l' where *: "link_run cv v evs (link_step cv v l ev) = l'"
    "packet_state w (ads @ sent (ev # evs)) k' l'"
    "mset (held (link_step cv v l ev)) = mset (map received (take k1 (ads @ sent_by ev))) \<longrightarrow>
       mset (held l') = mset (map received (take k' (ads @ sent (ev # evs))))"
    "held (link_step cv v l ev) = map received (take k1 (ads @ sent_by ev)) \<longrightarrow>
       (\<forall>i. CSender (Suc i) \<notin> set evs) \<longrightarrow> held l' = map received (take k' (ads @ sent (ev # evs)))"
    using Cons.prems(2) s by auto
  show ?case
    using * k1(2) unfolding in_step_def link_run_Cons by (intro exI [of _ k'] exI [of _ l']) auto
qed

section \<open>Opening the packet mode\<close>

definition listening :: "string \<Rightarrow> string \<Rightarrow> event list" where
  "listening p t = [CListen p t, ToServer, ToClient, CListenSelect Replied, CListenFinish]"

text \<open>A server whose listener succeeds with local address \<open>la\<close>.\<close>

definition listen_env :: "string \<Rightarrow> env" where
  "listen_env la = (open_env la)\<lparr>PacketListener := (\<lambda>_ _. Ok (Some la))\<rparr>"

definition admits_packets :: "env \<Rightarrow> string \<Rightarrow> string \<Rightarrow> string \<Rightarrow> bool" where
  "admits_packets v p t la \<longleftrightarrow> \<not> incoming_blocked v p t \<and> PacketListener v p t = Ok (Some la)"

lemma admits_listen_env [simp]: "admits_packets (listen_env la) p t la"
  by (simp add: admits_packets_def listen_env_def open_env_def incoming_blocked_def)

lemma listened:
  assumes "CHR '';'' \<notin> set p" and "admits_packets v p t la"
  shows "\<exists>l. link_run cv v (listening p t) idle_link = l \<and>
    packet_state (ws_out (sv l)) [] 0 l \<and> held l = [] \<and> got l = [] \<and> set (outs l) = {Ok ()} \<and>
    length (ws_out (sv l)) = 1 \<and> effs (sv l) = [EListen p t, EServePacket 0]"
  using assms
  by (simp add: listening_def link_eval packet_parts listen_start_def listen_wait_def listen_finish_def
      admits_packets_def handle_open_packet_def newConnPacketPipe_def Let_def packetChCap_def)

section \<open>Draining\<close>

text \<open>What is still to do for the packets sent so far: to arrive, to be offered, to be read.\<close>

definition to_do :: "nat \<Rightarrow> nat \<Rightarrow> link \<Rightarrow> nat" where
  "to_do n k l = 3 * (n - k) + 2 * length (spawned (cl l)) + length (queued (cl l) @ blocked (cl l))"

lemma packet_progress:
  assumes "packet_state w ads k l" and "to_do (length ads) k l \<noteq> 0"
  shows "\<exists>ev k'. packet_event ev \<and> sent_by ev = [] \<and> packet_state w ads k' (link_step cv v l ev) \<and>
    in_step ev ads k l ads k' (link_step cv v l ev) \<and> (\<forall>i. ev \<noteq> CSender (Suc i)) \<and>
    to_do (length ads) k' (link_step cv v l ev) < to_do (length ads) k l"
proof -
  consider (arrive) "k < length ads" | (sender) "spawned (cl l) \<noteq> []" | (read) "queued (cl l) \<noteq> []"
    using assms by (cases "queued (cl l) = []") (auto simp: to_do_def packet_state_def packetChCap_def)
  then show ?thesis
  proof cases
    case arrive
    obtain d where "link_step cv v l ToClient =
        l\<lparr>cl := (cl l)\<lparr>spawned := spawned (cl l) @ [d]\<rparr>, to_cl := Suc (to_cl l), outs := outs l @ [Ok ()]\<rparr>"
      using arrives [OF assms(1) arrive] by blast
    then have "to_do (length ads) (Suc k) (link_step cv v l ToClient) < to_do (length ads) k l"
      using arrive by (simp add: to_do_def queued_def)
    then show ?thesis
      using packet_step_arrive [OF assms(1) arrive, of cv v] by (intro exI [of _ ToClient] exI [of _ "Suc k"]) simp
  next
    case sender
    then have "to_do (length ads) k (link_step cv v l (CSender 0)) < to_do (length ads) k l"
      using assms(1) unfolding sender_runs [OF assms(1)] by (cases "spawned (cl l)") (auto simp: to_do_def queued_def)
    then show ?thesis
      using packet_step_sender [OF assms(1), of cv v 0] by (intro exI [of _ "CSender 0"] exI [of _ k]) simp
  next
    case read
    then have "to_do (length ads) k (link_step cv v l (CReadFrom 4096)) < to_do (length ads) k l"
      unfolding user_reads [OF assms(1) order_refl]
      by (cases "queued (cl l)"; cases "blocked (cl l)") (auto simp: to_do_def queued_def)
    then show ?thesis
      using packet_step_read [OF assms(1) order_refl, of cv v]
      by (intro exI [of _ "CReadFrom 4096"] exI [of _ k]) simp
  qed
qed

lemma packet_drain:
  assumes "packet_state w ads k l"
  shows "\<exists>es l'. (\<forall>ev\<in>set es. packet_event ev \<and> sent_by ev = []) \<and> (\<forall>i. CSender (Suc i) \<notin> set es) \<and>
    link_run cv v es l = l' \<and> packet_state w ads (length ads) l' \<and> held l' = got l'"
  using assms
proof (induction "to_do (length ads) k l" arbitrary: k l rule: less_induct)
  case less
  show ?case
  proof (cases "to_do (length ads) k l = 0")
    case True
    then have "k = length ads" "held l = got l"
      using less.prems by (simp_all add: to_do_def held_def inside_def packet_state_def)
    then show ?thesis using less.prems by (intro exI [of _ "[]"] exI [of _ l]) (simp add: link_run_Nil)
  next
    case False
    obtain ev k' where ev: "packet_event ev" "sent_by ev = []" "packet_state w ads k' (link_step cv v l ev)"
      "\<forall>i. ev \<noteq> CSender (Suc i)" "to_do (length ads) k' (link_step cv v l ev) < to_do (length ads) k l"
      using packet_progress [OF less.prems False, of cv v] by blast
    obtain es l' where "\<forall>ev\<in>set es. packet_event ev \<and> sent_by ev = []" "\<forall>i. CSender (Suc i) \<notin> set es"
      "link_run cv v es (link_step cv v l ev) = l'" "packet_state w ads (length ads) l'" "held l' = got l'"
      using less.hyps [OF ev(5,3)] by blast
    then show ?thesis using ev by (intro exI [of _ "ev # es"] exI [of _ l']) (auto simp: link_run_Cons)
  qed
qed

section \<open>Properties\<close>



text \<open>C37: Packets come in order if their goroutines run in the order in which they were started:
  what the user has read, followed by what waits in the channel, behind it and in goroutines, is then
  the sequence of the packets that arrived, in the order in which the server's socket delivered them.
  Only a goroutine that overtakes an older one can swap two packets.\<close>

theorem packets_in_order:
  assumes "CHR '';'' \<notin> set p" and "admits_packets v p t la" and "\<forall>ev\<in>set evs. packet_event ev" and "\<forall>i. CSender (Suc i) \<notin> set evs"
  shows "\<exists>l k. link_run cv v (listening p t @ evs) idle_link = l \<and>
    to_cl l = Suc k \<and>
    got l @ map as_read (queued (cl l) @ blocked (cl l) @ spawned (cl l)) = map received (take k (sent evs))"
proof -
  obtain l0 where l0: "link_run cv v (listening p t) idle_link = l0"
    "packet_state (ws_out (sv l0)) [] 0 l0" "held l0 = []" "length (ws_out (sv l0)) = 1"
    using listened [OF assms(1,2), of cv] by auto
  show ?thesis
    using packet_run [OF l0(2) assms(3), of cv v] l0(1,3,4) assms(4)
    by (auto simp: link_run_append held_def inside_def packet_state_def)
qed

theorem packets_in_order_witness:
  "\<exists>l k. link_run no_env (listen_env ''0.0.0.0:7'') (listening ''udp'' '':0'' @
      [SPacket (PData \<lparr>sa_network = ''udp'', sa_addr = ''a:1''\<rparr> [1]), SPacket (PData \<lparr>sa_network = ''udp'', sa_addr = ''b:2''\<rparr> [2]),
       ToClient, ToClient, CSender 0, CSender 0, CReadFrom 4096]) idle_link = l \<and>
    got l @ map as_read (queued (cl l) @ blocked (cl l) @ spawned (cl l)) =
      map received (take k [(\<lparr>sa_network = ''udp'', sa_addr = ''a:1''\<rparr>, [1]), (\<lparr>sa_network = ''udp'', sa_addr = ''b:2''\<rparr>, [2])])"
  using packets_in_order [OF _ admits_listen_env, of "''udp''" "[SPacket (PData \<lparr>sa_network = ''udp'', sa_addr = ''a:1''\<rparr> [1]),
      SPacket (PData \<lparr>sa_network = ''udp'', sa_addr = ''b:2''\<rparr> [2]), ToClient, ToClient, CSender 0, CSender 0, CReadFrom 4096]"
      no_env "''0.0.0.0:7''" "'':0''"]
  by (auto simp: sent_def small_addr_def)



text \<open>Two goroutines can swap two packets of one sender: nothing orders the goroutines that
  \<open>handleBinary\<close> starts, and if the second one reaches the channel first, the user reads the packets
  in the other order.\<close>

theorem packets_swapped:
  assumes "small_addr a" and "header_size a < 4096"
  shows "\<exists>l. link_run cv (listen_env la) (listening ''udp'' t @
      [SPacket (PData a [1]), SPacket (PData a [2]), ToClient, ToClient, CSender 1, CSender 0,
       CReadFrom 4096, CReadFrom 4096]) idle_link = l \<and>
    got l = [([2], a, None), ([1], a, None)]"
proof -
  obtain l0 where l0: "link_run cv (listen_env la) (listening ''udp'' t) idle_link = l0"
    "packet_state (ws_out (sv l0)) [] 0 l0" "held l0 = []"
    using listened [OF _ admits_listen_env, of "''udp''" cv la t] by auto
  let ?s = "link_step cv (listen_env la)" and ?w = "ws_out (sv l0)" and ?ads = "[(a, [1]), (a, [2])]"
  have e: "queued (cl l0) = []" "blocked (cl l0) = []" "spawned (cl l0) = []" "got l0 = []"
    using l0(3) by (simp_all add: held_def inside_def)
  define l1 where "l1 = ?s l0 (SPacket (PData a [1]))"
  define l2 where "l2 = ?s l1 (SPacket (PData a [2]))"
  have st1: "packet_state ?w [(a, [1])] 0 l1" "cl l1 = cl l0" "got l1 = []"
    using packet_step_send [OF l0(2) assms(1), of "[1]" cv "listen_env la"] e
      server_sends [OF l0(2), of cv "listen_env la" a "[1]"] by (simp_all add: l1_def)
  have st2: "packet_state ?w ?ads 0 l2" "cl l2 = cl l0" "got l2 = []"
    using packet_step_send [OF st1(1) assms(1), of "[2]" cv "listen_env la"] st1
      server_sends [OF st1(1), of cv "listen_env la" a "[2]"] by (simp_all add: l2_def)
  define l3 where "l3 = ?s l2 ToClient"
  obtain d1 where d1: "as_read d1 = received (a, [1])" "spawned (cl l3) = [d1]" "got l3 = []"
    "queued (cl l3) = []" "blocked (cl l3) = []"
    using arrives [OF st2(1), of cv "listen_env la"] st2 e by (auto simp: l3_def queued_def)
  have st3: "packet_state ?w ?ads 1 l3"
    using packet_step_arrive [OF st2(1), of cv "listen_env la"] by (simp add: l3_def)
  define l4 where "l4 = ?s l3 ToClient"
  obtain d2 where d2: "as_read d2 = received (a, [2])" "spawned (cl l4) = [d1, d2]" "got l4 = []"
    "queued (cl l4) = []" "blocked (cl l4) = []"
    using arrives [OF st3(1), of cv "listen_env la"] d1 by (auto simp: l4_def queued_def)
  have st4: "packet_state ?w ?ads 2 l4"
    using packet_step_arrive [OF st3(1), of cv "listen_env la"] by (simp add: l4_def numeral_2_eq_2)
  define l5 where "l5 = ?s l4 (CSender 1)"
  have l5: "packet_state ?w ?ads 2 l5" "spawned (cl l5) = [d1]" "queued (cl l5) = [d2]" "blocked (cl l5) = []" "got l5 = []"
    using packet_step_sender [OF st4, of cv "listen_env la" 1] sender_runs [OF st4, of cv "listen_env la" 1] d2
    by (simp_all add: l5_def queued_def remove_at_def packetChCap_def)
  define l6 where "l6 = ?s l5 (CSender 0)"
  have l6: "packet_state ?w ?ads 2 l6" "queued (cl l6) = [d2, d1]" "blocked (cl l6) = []" "got l6 = []"
    using packet_step_sender [OF l5(1), of cv "listen_env la" 0] sender_runs [OF l5(1), of cv "listen_env la" 0] l5
    by (simp_all add: l6_def queued_def packetChCap_def)
  define l7 where "l7 = ?s l6 (CReadFrom 4096)"
  have l7: "packet_state ?w ?ads 2 l7" "queued (cl l7) = [d1]" "got l7 = [as_read d2]"
    using packet_step_read [OF l6(1) order_refl, of cv "listen_env la"] user_reads [OF l6(1) order_refl, of cv "listen_env la"] l6
    by (simp_all add: l7_def queued_def)
  have "got (?s l7 (CReadFrom 4096)) = [as_read d2, as_read d1]"
    using user_reads [OF l7(1) order_refl, of cv "listen_env la"] l7 by simp
  then show ?thesis
    using l0(1) d1(1) d2(1) assms(2)
    by (simp add: link_run_append link_run_Cons link_run_Nil received_def Suc_diff_le
        l1_def l2_def l3_def l4_def l5_def l6_def l7_def)
qed

theorem packets_swapped_witness:
  "\<exists>l. link_run no_env (listen_env ''0.0.0.0:7'') (listening ''udp'' '':0'' @
      [SPacket (PData \<lparr>sa_network = ''udp'', sa_addr = ''a:1''\<rparr> [1]), SPacket (PData \<lparr>sa_network = ''udp'', sa_addr = ''a:1''\<rparr> [2]),
       ToClient, ToClient, CSender 1, CSender 0, CReadFrom 4096, CReadFrom 4096]) idle_link = l \<and> map fst (got l) = [[2], [1]]"
  using packets_swapped [of "\<lparr>sa_network = ''udp'', sa_addr = ''a:1''\<rparr>" no_env "''0.0.0.0:7''" "'':0''"]
  by (auto simp: small_addr_def header_size_def)

end
