(* ===== verification/Buffer_Pools.thy ===== *)
theory Buffer_Pools
  imports Wire_Step Simulation "HOL-Library.Multiset"
begin

text \<open>
  The pools of byte buffers (\<open>internal/pool/ippkt.go\<close>, \<open>bufpool.go\<close>, \<open>socks5/utils.go\<close>) and what
  \<open>conn.go\<close> keeps in them. A buffer is an address: the packets that wait on the client are slices of
  shared memory, which the goroutine of \<open>ReadFrom\<close> copies and then gives back. The theorems say that
  no buffer ever has two owners and that this machine does, packet by packet, what the connection of
  \<open>Wire_Conn\<close> does on values.
\<close>

section \<open>Pools\<close>

text \<open>A \<open>sync.Pool\<close> of buffers over a memory; \<open>bp_next\<close> is the next address to allocate. Which item
  \<open>Get\<close> takes is up to the runtime: an index, or none of them.\<close>

record bufs =
  bp_mem :: "nat \<Rightarrow> bytes"
  bp_free :: "nat list"
  bp_next :: nat

definition no_bufs :: bufs where
  "no_bufs = \<lparr>bp_mem = (\<lambda>_. []), bp_free = [], bp_next = 0\<rparr>"

definition pool_Get :: "bytes \<Rightarrow> nat option \<Rightarrow> bufs \<Rightarrow> nat \<times> bufs" where
  "pool_Get new pick s =
     (case pick of
        Some i \<Rightarrow>
          if i < length (bp_free s) then (bp_free s ! i, s\<lparr>bp_free := remove_at i (bp_free s)\<rparr>)
          else (bp_next s, s\<lparr>bp_mem := (bp_mem s)(bp_next s := new), bp_next := Suc (bp_next s)\<rparr>)
      | None \<Rightarrow> (bp_next s, s\<lparr>bp_mem := (bp_mem s)(bp_next s := new), bp_next := Suc (bp_next s)\<rparr>))"

definition pool_Put :: "nat \<Rightarrow> bufs \<Rightarrow> bufs" where
  "pool_Put a s = s\<lparr>bp_free := a # bp_free s\<rparr>"

text \<open>The garbage collector may empty a pool.\<close>

definition pool_drop :: "nat \<Rightarrow> bufs \<Rightarrow> bufs" where
  "pool_drop i s = s\<lparr>bp_free := remove_at i (bp_free s)\<rparr>"

text \<open>Writing \<open>bs\<close> from the start of a buffer.\<close>

definition buf_write :: "nat \<Rightarrow> bytes \<Rightarrow> bufs \<Rightarrow> bufs" where
  "buf_write a bs s = s\<lparr>bp_mem := (bp_mem s)(a := bs @ drop (length bs) (bp_mem s a))\<rparr>"

text \<open>The pool's items and the bag \<open>M\<close> of buffers in use are different buffers.\<close>

definition owns :: "bufs \<Rightarrow> nat multiset \<Rightarrow> bool" where
  "owns s M \<longleftrightarrow> (\<forall>a. count (mset (bp_free s) + M) a \<le> 1) \<and> (\<forall>a\<in>#mset (bp_free s) + M. a < bp_next s)"

lemma owns_sub:
  assumes "owns s M" and "mset (bp_free s') + M' \<subseteq># mset (bp_free s) + M" and "bp_next s \<le> bp_next s'"
  shows "owns s' M'"
proof -
  have "count (mset (bp_free s') + M') a \<le> 1" for a
    using mset_subset_eq_count [OF assms(2), of a] assms(1) unfolding owns_def by (meson le_trans)
  moreover have "a < bp_next s'" if "a \<in># mset (bp_free s') + M'" for a
    using mset_subset_eqD [OF assms(2) that] assms(1,3) unfolding owns_def by fastforce
  ultimately show ?thesis by (simp add: owns_def)
qed

lemma owns_mono: "owns s M \<Longrightarrow> N \<subseteq># M \<Longrightarrow> owns s N"
  by (erule owns_sub) (simp_all add: subset_mset.add_left_mono)

lemma owns_apart: "owns s (M + N + K) \<Longrightarrow> a \<in># M \<Longrightarrow> a \<notin># K"
proof
  assume o: "owns s (M + N + K)" and a: "a \<in># M" "a \<in># K"
  then have "1 \<le> count M a" "1 \<le> count K a" by (simp_all add: Suc_le_eq)
  moreover have "count (mset (bp_free s) + (M + N + K)) a \<le> 1" using o unfolding owns_def by blast
  ultimately show False unfolding count_union by linarith
qed

section \<open>The contract of a pool\<close>

locale buffer_pool =
  fixes get :: "nat option \<Rightarrow> 's \<Rightarrow> nat \<times> 's"
    and put :: "nat \<Rightarrow> 's \<Rightarrow> 's"
    and wr :: "nat \<Rightarrow> bytes \<Rightarrow> 's \<Rightarrow> 's"
    and mem :: "'s \<Rightarrow> nat \<Rightarrow> bytes"
    and owned :: "'s \<Rightarrow> nat multiset \<Rightarrow> bool"
  assumes get_owned: "owned s M \<Longrightarrow> get p s = (a, s') \<Longrightarrow> owned s' (add_mset a M) \<and> a \<notin># M"
    and get_mem: "owned s M \<Longrightarrow> get p s = (a, s') \<Longrightarrow> b \<in># M \<Longrightarrow> mem s' b = mem s b"
    and put_owned: "owned s (add_mset a M) \<Longrightarrow> owned (put a s) M"
    and put_mem: "mem (put a s) = mem s"
    and write_owned: "owned s M \<Longrightarrow> owned (wr a bs s) M"
    and write_mem: "take (length bs) (mem (wr a bs s) a) = bs"
      "b \<noteq> a \<Longrightarrow> mem (wr a bs s) b = mem s b"
begin

text \<open>A goroutine that takes a buffer, fills it and puts it back disturbs no owner.\<close>

lemma borrow:
  assumes "owned s M" and "get p s = (a, s')" and "b \<in># M"
  shows "owned (put a (wr a bs s')) M \<and> mem (put a (wr a bs s')) b = mem s b"
proof -
  have "owned s' (add_mset a M)" "b \<noteq> a" using get_owned [OF assms(1,2)] assms(3) by auto
  then show ?thesis
    using put_owned [OF write_owned] get_mem [OF assms(1,2,3)] put_mem write_mem(2) by metis
qed

text \<open>What was read into a fresh buffer is what its prefix of that length holds, and nothing else moved.\<close>

lemma fill:
  assumes "owned s M" and "get p s = (a, s')"
  shows "owned (wr a bs s') (add_mset a M)" "take (length bs) (mem (wr a bs s') a) = bs"
    and "b \<in># M \<Longrightarrow> mem (wr a bs s') b = mem s b"
proof -
  have o: "owned s' (add_mset a M)" "a \<notin># M" using get_owned [OF assms] by auto
  then show "owned (wr a bs s') (add_mset a M)" by (simp add: write_owned)
  show "take (length bs) (mem (wr a bs s') a) = bs" by (rule write_mem(1))
  assume "b \<in># M"
  then show "mem (wr a bs s') b = mem s b" using o(2) write_mem(2) get_mem [OF assms] by metis
qed

end

lemma pool_Get_new_or_free:
  "pool_Get new p s = (a, s') \<Longrightarrow>
     (\<exists>i<length (bp_free s). a = bp_free s ! i \<and> s' = s\<lparr>bp_free := remove_at i (bp_free s)\<rparr>) \<or>
     a = bp_next s \<and> s' = s\<lparr>bp_mem := (bp_mem s)(a := new), bp_next := Suc a\<rparr>"
  by (auto simp: pool_Get_def split: option.splits if_splits)

lemma pool_Get_owns:
  assumes "owns s M" and "pool_Get new p s = (a, s')"
  shows "owns s' (add_mset a M) \<and> a \<notin># M"
  using pool_Get_new_or_free [OF assms(2)]
proof (elim disjE exE conjE)
  fix i assume i: "i < length (bp_free s)" "a = bp_free s ! i" "s' = s\<lparr>bp_free := remove_at i (bp_free s)\<rparr>"
  have m: "mset (remove_at i (bp_free s)) + add_mset a M = mset (bp_free s) + M"
    unfolding mset_remove_at [OF i(1), symmetric] i(2) by simp
  have "count (mset (bp_free s)) a \<ge> 1" using i(1,2) by (simp add: Suc_le_eq del: One_nat_def)
  moreover have "count (mset (bp_free s) + M) a \<le> 1" using assms(1) by (simp only: owns_def)
  ultimately have "count M a = 0" unfolding count_union by linarith
  moreover have "owns s' (add_mset a M)"
    using m by (intro owns_sub [OF assms(1)]) (simp_all add: i(3))
  ultimately show ?thesis by (simp add: not_in_iff)
next
  assume a: "a = bp_next s" "s' = s\<lparr>bp_mem := (bp_mem s)(a := new), bp_next := Suc a\<rparr>"
  then have "a \<notin># mset (bp_free s) + M" using assms(1) by (fastforce simp: owns_def)
  then have "count (mset (bp_free s) + add_mset a M) b \<le> 1" for b
    using assms(1) by (cases "a = b") (auto simp: owns_def not_in_iff)
  moreover have "b < Suc a" if "b \<in># mset (bp_free s) + add_mset a M" for b
    using that assms(1) a(1) by (force simp: owns_def less_Suc_eq)
  ultimately show ?thesis using a(2) \<open>a \<notin># _\<close> by (simp add: owns_def)
qed

lemma pool_Get_mem:
  assumes "owns s M" and "pool_Get new p s = (a, s')" and "b \<in># M"
  shows "bp_mem s' b = bp_mem s b"
  using pool_Get_new_or_free [OF assms(2)] pool_Get_owns [OF assms(1,2)] assms(3) by auto

lemma pool_Put_owns: "owns s (add_mset a M) \<Longrightarrow> owns (pool_Put a s) M"
  by (simp add: owns_def pool_Put_def)

lemma pool_drop_owns: "owns s M \<Longrightarrow> owns (pool_drop i s) M"
  by (erule owns_sub) (simp_all add: pool_drop_def mset_remove_at_subset subset_mset.add_right_mono)

text \<open>The pool of packet buffers.\<close>

definition GetIPPacketBuf :: "nat option \<Rightarrow> bufs \<Rightarrow> nat \<times> bufs" where
  "GetIPPacketBuf = pool_Get (replicate IPPacketMaxSize 0)"

interpretation ip_bufs: buffer_pool GetIPPacketBuf pool_Put buf_write bp_mem owns
  unfolding GetIPPacketBuf_def
  by unfold_locales
    (auto simp: pool_Get_owns pool_Get_mem pool_Put_owns, auto simp: owns_def pool_Put_def buf_write_def)

section \<open>Frames are formatted in pooled buffers\<close>

text \<open>The pool of \<open>bytes.Buffer\<close>s: \<open>Reset\<close> and the writes that append.\<close>

definition GetFormatBuf :: "nat option \<Rightarrow> bufs \<Rightarrow> nat \<times> bufs" where
  "GetFormatBuf = pool_Get []"

definition buf_Reset :: "nat \<Rightarrow> bufs \<Rightarrow> bufs" where
  "buf_Reset a s = s\<lparr>bp_mem := (bp_mem s)(a := [])\<rparr>"

definition buf_append :: "nat \<Rightarrow> bytes \<Rightarrow> bufs \<Rightarrow> bufs" where
  "buf_append a bs s = s\<lparr>bp_mem := (bp_mem s)(a := bp_mem s a @ bs)\<rparr>"

definition format_frame :: "nat \<Rightarrow> stringAddr \<Rightarrow> bytes \<Rightarrow> bufs \<Rightarrow> bufs" where
  "format_frame a ad data s =
     buf_append a data
       (buf_append a (bytes_of (sa_addr ad)) (buf_append a [len_byte (length (sa_addr ad))]
         (buf_append a (bytes_of (sa_network ad)) (buf_append a [len_byte (length (sa_network ad))]
           (buf_Reset a s)))))"

definition reset_fill :: "nat \<Rightarrow> bytes \<Rightarrow> bufs \<Rightarrow> bufs" where
  "reset_fill a bs s = buf_append a bs (buf_Reset a s)"

interpretation format_bufs: buffer_pool GetFormatBuf pool_Put reset_fill bp_mem owns
  unfolding GetFormatBuf_def
  by unfold_locales
    (auto simp: pool_Get_owns pool_Get_mem pool_Put_owns,
      auto simp: owns_def pool_Put_def reset_fill_def buf_append_def buf_Reset_def)

lemma format_frame_eq: "format_frame a ad data s = reset_fill a (packet_frame ad data) s"
  by (simp add: format_frame_def reset_fill_def buf_append_def buf_Reset_def packet_frame_def)

text \<open>\<open>sendPacketData\<close> with its buffer.\<close>

definition sendPacketData_buf ::
  "nat option \<Rightarrow> bytes \<Rightarrow> stringAddr \<Rightarrow> bufs \<Rightarrow> Conn \<Rightarrow> ((conn_error, unit) outcome \<times> Conn) \<times> bufs" where
  "sendPacketData_buf pick data ad s c =
     (case GetFormatBuf pick s of
        (a, s1) \<Rightarrow>
          let s2 = format_frame a ad data s1
          in (close_on_err (ws_write (Binary (bp_mem s2 a))) c, pool_Put a s2))"

lemma sendPacketData_buf_eq: "fst (sendPacketData_buf pick data ad s c) = sendPacketData data ad c"
  by (simp add: sendPacketData_buf_def sendPacketData_def format_frame_eq reset_fill_def buf_append_def buf_Reset_def
      Let_def split: prod.split)

lemma sendPacketData_buf_owns:
  "owns s M \<Longrightarrow> b \<in># M \<Longrightarrow>
     owns (snd (sendPacketData_buf pick data ad s c)) M \<and>
     bp_mem (snd (sendPacketData_buf pick data ad s c)) b = bp_mem s b"
  using format_bufs.borrow by (simp add: sendPacketData_buf_def format_frame_eq Let_def split: prod.split)

end
