(* ===== verification/Packet_Buffers.thy ===== *)
theory Packet_Buffers
  imports Buffer_Pools
begin

text \<open>
  The client's packets in shared memory. A packet of \<open>conn.go\<close> is a slice of a buffer of the pool; it
  moves from the goroutine of \<open>handleBinary\<close> through the channel to \<open>ReadFrom\<close>, which copies it into
  the user's buffer and only then gives its buffer back. Other goroutines, of this connection and of
  all others, take buffers from the same pool. The abstraction \<open>value_conn\<close> reads every packet out of
  the memory; seen through it, this machine is the connection of \<open>Wire_Conn\<close>.
\<close>

section \<open>State\<close>

record bpacket =
  bk_addr :: stringAddr
  bk_at :: nat
  bk_len :: nat
  bk_err :: "io_error option"

type_synonym read_result = "nat \<times> bytes \<times> stringAddr \<times> io_error option"

text \<open>\<open>bc_copying\<close> holds the calls of \<open>ReadFrom\<close> (a number and the size of the user's buffer) that have
  received a packet and not yet copied it, \<open>bc_freeing\<close> the buffers whose \<open>freeBuf\<close> is still to run,
  \<open>bc_got\<close> what the calls have copied, and \<open>bc_others\<close> the buffers that other goroutines hold.\<close>

record bconn =
  bc_conn :: Conn
  bc_spawned :: "bpacket list"
  bc_queue :: "bpacket list option"
  bc_blocked :: "bpacket list"
  bc_copying :: "(nat \<times> bpacket \<times> nat) list"
  bc_freeing :: "nat list"
  bc_got :: "read_result multiset"
  bc_pool :: bufs
  bc_others :: "nat multiset"

definition load :: "(nat \<Rightarrow> bytes) \<Rightarrow> bpacket \<Rightarrow> packetDataT" where
  "load m p = \<lparr>pk_addr = bk_addr p, pk_buf = take (bk_len p) (m (bk_at p)), pk_err = bk_err p\<rparr>"

definition value_conn :: "bconn \<Rightarrow> Conn" where
  "value_conn s = (bc_conn s)\<lparr>
     spawned := map (load (bp_mem (bc_pool s))) (bc_spawned s),
     packetDataCh := map_option (map (load (bp_mem (bc_pool s)))) (bc_queue s),
     blocked := map (load (bp_mem (bc_pool s))) (bc_blocked s)\<rparr>"

definition result_of :: "(nat \<Rightarrow> bytes) \<Rightarrow> nat \<times> bpacket \<times> nat \<Rightarrow> read_result" where
  "result_of m x = (case x of (j, p, n) \<Rightarrow> (j, take n (pk_buf (load m p)), bk_addr p, bk_err p))"

section \<open>Operations\<close>

text \<open>\<open>handleBinary\<close> in packet mode: the buffer is taken after the header has been read.\<close>

definition buf_binary :: "nat option \<Rightarrow> reader \<Rightarrow> bconn \<Rightarrow> (conn_error, unit) outcome \<times> bconn" where
  "buf_binary pick r s =
     (case read_packet r of
        Ok d \<Rightarrow>
          (case GetIPPacketBuf pick (bc_pool s) of
             (a, b) \<Rightarrow>
               (packet_outcome d, s\<lparr>bc_pool := buf_write a (pk_buf d) b,
                  bc_spawned := bc_spawned s @
                    [\<lparr>bk_addr = pk_addr d, bk_at = a, bk_len = length (pk_buf d), bk_err = pk_err d\<rparr>]\<rparr>))
      | Err e \<Rightarrow> (Err (IoError e), s)
      | Panic p \<Rightarrow> (Panic p, s)
      | Hang \<Rightarrow> (Hang, s))"

definition buf_sender :: "nat \<Rightarrow> bconn \<Rightarrow> bconn" where
  "buf_sender i s =
     (if length (bc_spawned s) \<le> i then s
      else let p = bc_spawned s ! i; s' = s\<lparr>bc_spawned := remove_at i (bc_spawned s)\<rparr>
           in case bc_queue s of
                None \<Rightarrow> s'
              | Some q \<Rightarrow> if length q < packetChCap then s'\<lparr>bc_queue := Some (q @ [p])\<rparr>
                          else s'\<lparr>bc_blocked := bc_blocked s @ [p]\<rparr>)"

text \<open>A goroutine that returns because the context is done drops its packet without giving the buffer
  back.\<close>

definition buf_sender_done :: "nat \<Rightarrow> bconn \<Rightarrow> bconn" where
  "buf_sender_done i s =
     (if cause (bc_conn s) = None then s else s\<lparr>bc_spawned := remove_at i (bc_spawned s)\<rparr>)"

definition buf_blocked_done :: "nat \<Rightarrow> bconn \<Rightarrow> bconn" where
  "buf_blocked_done i s =
     (if cause (bc_conn s) = None then s else s\<lparr>bc_blocked := remove_at i (bc_blocked s)\<rparr>)"

text \<open>The three sections of \<open>ReadFrom\<close>: the receive, \<open>n = copy(buf, res.buf)\<close>, \<open>res.freeBuf()\<close>.\<close>

definition buf_receive :: "nat \<Rightarrow> nat \<Rightarrow> bconn \<Rightarrow> bconn" where
  "buf_receive j n s =
     (case bc_queue s of
        Some (p # q) \<Rightarrow>
          (let s' = s\<lparr>bc_copying := bc_copying s @ [(j, p, n)]\<rparr>
           in case bc_blocked s of
                [] \<Rightarrow> s'\<lparr>bc_queue := Some q\<rparr>
              | b # bs \<Rightarrow> s'\<lparr>bc_queue := Some (q @ [b]), bc_blocked := bs\<rparr>)
      | _ \<Rightarrow> s)"

definition buf_copy :: "nat \<Rightarrow> bconn \<Rightarrow> bconn" where
  "buf_copy i s =
     (if length (bc_copying s) \<le> i then s
      else let x = bc_copying s ! i
           in s\<lparr>bc_copying := remove_at i (bc_copying s),
                bc_got := add_mset (result_of (bp_mem (bc_pool s)) x) (bc_got s),
                bc_freeing := bk_at (fst (snd x)) # bc_freeing s\<rparr>)"

definition buf_free :: "nat \<Rightarrow> bconn \<Rightarrow> bconn" where
  "buf_free i s =
     (if length (bc_freeing s) \<le> i then s
      else s\<lparr>bc_freeing := remove_at i (bc_freeing s),
             bc_pool := pool_Put (bc_freeing s ! i) (bc_pool s)\<rparr>)"

text \<open>The other goroutines that use the pool: \<open>serveStream\<close> and \<open>servePacket\<close> take a buffer when they
  start, read into it and give it back when they return.\<close>

definition other_get :: "nat option \<Rightarrow> bconn \<Rightarrow> bconn" where
  "other_get pick s =
     (case GetIPPacketBuf pick (bc_pool s) of
        (a, b) \<Rightarrow> s\<lparr>bc_pool := b, bc_others := add_mset a (bc_others s)\<rparr>)"

definition other_write :: "nat \<Rightarrow> bytes \<Rightarrow> bconn \<Rightarrow> bconn" where
  "other_write a bs s = s\<lparr>bc_pool := buf_write a bs (bc_pool s)\<rparr>"

definition other_put :: "nat \<Rightarrow> bconn \<Rightarrow> bconn" where
  "other_put a s = s\<lparr>bc_pool := pool_Put a (bc_pool s), bc_others := bc_others s - {#a#}\<rparr>"

section \<open>Steps\<close>

text \<open>What the connection does beside its packets, and the making and closing of the channel, are
  steps of \<open>Wire_Step\<close>.\<close>

inductive buf_step :: "env \<Rightarrow> bconn \<Rightarrow> bconn \<Rightarrow> bool" for v where
  arrive: "status (bc_conn s) = StatusPacket \<Longrightarrow> \<not> locked (bc_conn s) \<Longrightarrow> buf_binary pick r s = (ro, s') \<Longrightarrow>
    buf_step v s s'"
| sender: "buf_step v s (buf_sender i s)"
| sender_gives_up: "buf_step v s (buf_sender_done i s)"
| blocked_gives_up: "buf_step v s (buf_blocked_done i s)"
| receive: "buf_step v s (buf_receive j n s)"
| copy: "buf_step v s (buf_copy i s)"
| free: "buf_step v s (buf_free i s)"
| get_by_other: "buf_step v s (other_get pick s)"
| write_by_other: "a \<in># bc_others s \<Longrightarrow> buf_step v s (other_write a bs s)"
| put_by_other: "a \<in># bc_others s \<Longrightarrow> buf_step v s (other_put a s)"
| collect: "buf_step v s (s\<lparr>bc_pool := pool_drop i (bc_pool s)\<rparr>)"
| conn: "conn_step v (value_conn s) c' \<Longrightarrow> spawned c' = spawned (value_conn s) \<Longrightarrow>
    packetDataCh c' = packetDataCh (value_conn s) \<Longrightarrow> blocked c' = blocked (value_conn s) \<Longrightarrow>
    buf_step v s (s\<lparr>bc_conn := c'\<rparr>)"
| channel: "conn_step v (value_conn s) c' \<Longrightarrow> spawned c' = spawned (value_conn s) \<Longrightarrow>
    packetDataCh c' = None \<or> packetDataCh c' = Some [] \<Longrightarrow> blocked c' = blocked (value_conn s) \<Longrightarrow>
    buf_step v s (s\<lparr>bc_conn := c', bc_queue := map_option (\<lambda>_. []) (packetDataCh c')\<rparr>)"

text \<open>The machine of values: a connection, and what its reads have returned.\<close>

inductive value_step :: "env \<Rightarrow> Conn \<times> read_result multiset \<Rightarrow> Conn \<times> read_result multiset \<Rightarrow> bool" for v where
  conn: "conn_step v c c' \<Longrightarrow> value_step v (c, g) (c', g)"
| read: "pp_ReadFrom n None newConnPacketPipe c = (Ok (bs, a, e), c') \<Longrightarrow>
    value_step v (c, g) (c', add_mset (j, bs, a, e) g)"

definition to_copy :: "bconn \<Rightarrow> read_result list" where
  "to_copy s = map (result_of (bp_mem (bc_pool s))) (bc_copying s)"

definition value_of :: "bconn \<Rightarrow> Conn \<times> read_result multiset" where
  "value_of s = (value_conn s, mset (to_copy s) + bc_got s)"

section \<open>Ownership\<close>

definition packets_of :: "bconn \<Rightarrow> bpacket list" where
  "packets_of s = bc_spawned s @ (case bc_queue s of None \<Rightarrow> [] | Some q \<Rightarrow> q) @ bc_blocked s @
     map (fst \<circ> snd) (bc_copying s)"

definition owned_bufs :: "bconn \<Rightarrow> nat multiset" where
  "owned_bufs s = mset (map bk_at (packets_of s)) + mset (bc_freeing s) + bc_others s"

definition bufs_ok :: "bconn \<Rightarrow> bool" where
  "bufs_ok s \<longleftrightarrow> owns (bc_pool s) (owned_bufs s)"

lemma bk_at_owned: "p \<in> set (packets_of s) \<Longrightarrow> bk_at p \<in># owned_bufs s"
  by (simp add: owned_bufs_def)

text \<open>A change of the pool that leaves the packets' buffers alone cannot be seen.\<close>

lemma loads_pool:
  assumes "\<forall>p\<in>set (packets_of s). bp_mem b (bk_at p) = bp_mem (bc_pool s) (bk_at p)"
  shows "map (load (bp_mem b)) (bc_spawned s) = map (load (bp_mem (bc_pool s))) (bc_spawned s)"
    and "map_option (map (load (bp_mem b))) (bc_queue s) = map_option (map (load (bp_mem (bc_pool s)))) (bc_queue s)"
    and "map (load (bp_mem b)) (bc_blocked s) = map (load (bp_mem (bc_pool s))) (bc_blocked s)"
    and "map (result_of (bp_mem b)) (bc_copying s) = map (result_of (bp_mem (bc_pool s))) (bc_copying s)"
proof -
  have l: "load (bp_mem b) p = load (bp_mem (bc_pool s)) p" if "p \<in> set (packets_of s)" for p
    using assms that by (simp add: load_def)
  show "map (load (bp_mem b)) (bc_spawned s) = map (load (bp_mem (bc_pool s))) (bc_spawned s)"
    "map (load (bp_mem b)) (bc_blocked s) = map (load (bp_mem (bc_pool s))) (bc_blocked s)"
    by (rule map_cong [OF refl], rule l, simp add: packets_of_def)+
  show "map_option (map (load (bp_mem b))) (bc_queue s) = map_option (map (load (bp_mem (bc_pool s)))) (bc_queue s)"
    by (cases "bc_queue s") (auto intro!: l simp: packets_of_def)
  show "map (result_of (bp_mem b)) (bc_copying s) = map (result_of (bp_mem (bc_pool s))) (bc_copying s)"
  proof (rule map_cong [OF refl])
    fix x assume "x \<in> set (bc_copying s)"
    then have "fst (snd x) \<in> set (packets_of s)" by (auto simp: packets_of_def)
    from l [OF this] show "result_of (bp_mem b) x = result_of (bp_mem (bc_pool s)) x"
      by (cases x) (simp add: result_of_def)
  qed
qed

lemma value_of_pool:
  assumes "\<forall>p\<in>set (packets_of s). bp_mem b (bk_at p) = bp_mem (bc_pool s) (bk_at p)"
  shows "value_of (s\<lparr>bc_pool := b\<rparr>) = value_of s"
proof -
  have "value_conn (s\<lparr>bc_pool := b\<rparr>) = value_conn s" "to_copy (s\<lparr>bc_pool := b\<rparr>) = to_copy s"
    using loads_pool [OF assms] by (simp_all add: value_conn_def to_copy_def)
  then show ?thesis by (simp add: value_of_def)
qed

lemma bufs_ok_pool:
  "owns b (owned_bufs s) \<Longrightarrow> bufs_ok (s\<lparr>bc_pool := b\<rparr>)"
  by (simp add: bufs_ok_def owned_bufs_def packets_of_def)

lemma bufs_ok_drop:
  "bufs_ok s \<Longrightarrow> bc_pool s' = bc_pool s \<Longrightarrow> owned_bufs s' \<subseteq># owned_bufs s \<Longrightarrow> bufs_ok s'"
  unfolding bufs_ok_def using owns_mono by metis

subsection \<open>Packets arrive\<close>

lemma arrive_sim:
  assumes "bufs_ok s" and "status (bc_conn s) = StatusPacket" and "\<not> locked (bc_conn s)"
    and "buf_binary pick r s = (ro, s')"
  shows "bufs_ok s' \<and> handleBinary r (value_conn s) = (ro, value_conn s') \<and> snd (value_of s') = snd (value_of s)"
proof (cases "read_packet r")
  case (Ok d)
  obtain a b where g: "GetIPPacketBuf pick (bc_pool s) = (a, b)" by fastforce
  let ?b = "buf_write a (pk_buf d) b" and ?p = "\<lparr>bk_addr = pk_addr d, bk_at = a, bk_len = length (pk_buf d), bk_err = pk_err d\<rparr>"
  have o: "owns (bc_pool s) (owned_bufs s)" using assms(1) by (simp add: bufs_ok_def)
  note f = ip_bufs.fill [where bs = "pk_buf d", OF o g]
  have s': "ro = packet_outcome d" "s' = s\<lparr>bc_pool := ?b, bc_spawned := bc_spawned s @ [?p]\<rparr>"
    using assms(4) Ok g by (auto simp: buf_binary_def)
  have "\<forall>p\<in>set (packets_of s). bp_mem ?b (bk_at p) = bp_mem (bc_pool s) (bk_at p)"
    using f(3) bk_at_owned by blast
  note v = loads_pool [OF this]
  have l: "load (bp_mem ?b) ?p = d" using f(2) by (simp add: load_def)
  have "value_conn s' = (value_conn s)\<lparr>spawned := spawned (value_conn s) @ [d]\<rparr>"
    unfolding s'(2) by (rule Conn.equality) (simp_all add: value_conn_def v l)
  moreover have "to_copy s' = to_copy s" "bc_got s' = bc_got s"
    using v(4) unfolding s'(2) by (simp_all add: to_copy_def)
  moreover have "bufs_ok s'"
    using f(1) unfolding s'(2) by (simp add: bufs_ok_def owned_bufs_def packets_of_def)
  moreover have "handleBinary r (value_conn s) = (packet_outcome d, (value_conn s)\<lparr>spawned := spawned (value_conn s) @ [d]\<rparr>)"
    using assms(2,3) Ok by (simp add: handleBinary_def with_lock_def run_binary_def value_conn_def)
  ultimately show ?thesis using s'(1) by (simp add: value_of_def)
qed (use assms in \<open>auto simp: buf_binary_def handleBinary_def with_lock_def run_binary_def value_conn_def\<close>)

subsection \<open>Packets move\<close>

lemma value_sender: "value_conn (buf_sender i s) = run_sender i (value_conn s)"
  by (cases "bc_queue s")
    (simp_all add: buf_sender_def run_sender_def value_conn_def Let_def map_remove_at)

lemma sender_frame: "bc_copying (buf_sender i s) = bc_copying s" "bc_got (buf_sender i s) = bc_got s"
  "bc_pool (buf_sender i s) = bc_pool s"
  by (simp_all add: buf_sender_def Let_def split: option.split)

lemma sender_owned: "owned_bufs (buf_sender i s) \<subseteq># owned_bufs s"
proof (cases "i < length (bc_spawned s)")
  case True
  from mset_remove_at [OF True, symmetric] show ?thesis
    by (auto simp: buf_sender_def Let_def owned_bufs_def packets_of_def split: option.split)
qed (simp add: buf_sender_def)

lemma value_done:
  "value_conn (buf_sender_done i s) = sender_done i (value_conn s)"
  "value_conn (buf_blocked_done i s) = blocked_done i (value_conn s)"
  by (simp_all add: buf_sender_done_def sender_done_def buf_blocked_done_def blocked_done_def value_conn_def map_remove_at)

lemma done_frame:
  "bc_copying (buf_sender_done i s) = bc_copying s" "bc_got (buf_sender_done i s) = bc_got s"
  "bc_pool (buf_sender_done i s) = bc_pool s"
  "bc_copying (buf_blocked_done i s) = bc_copying s" "bc_got (buf_blocked_done i s) = bc_got s"
  "bc_pool (buf_blocked_done i s) = bc_pool s"
  by (simp_all add: buf_sender_done_def buf_blocked_done_def)

lemma done_owned:
  "owned_bufs (buf_sender_done i s) \<subseteq># owned_bufs s" "owned_bufs (buf_blocked_done i s) \<subseteq># owned_bufs s"
  using image_mset_subseteq_mono [OF mset_remove_at_subset, of bk_at i "bc_spawned s"]
    image_mset_subseteq_mono [OF mset_remove_at_subset, of bk_at i "bc_blocked s"]
  by (simp_all add: buf_sender_done_def buf_blocked_done_def owned_bufs_def packets_of_def)

subsection \<open>Packets are read\<close>

lemma result_of_load: "result_of m (j, p, n) = (j, take n (pk_buf (load m p)), pk_addr (load m p), pk_err (load m p))"
  by (simp add: result_of_def load_def)

lemma receive_sim:
  "value_of (buf_receive j n s) = value_of s \<or> value_step v (value_of s) (value_of (buf_receive j n s))"
proof (cases "\<exists>p q. bc_queue s = Some (p # q)")
  case True
  then obtain p q where q: "bc_queue s = Some (p # q)" by auto
  let ?m = "bp_mem (bc_pool s)" and ?s = "buf_receive j n s"
  have c: "to_copy ?s = to_copy s @ [result_of ?m (j, p, n)]" "bc_got ?s = bc_got s"
    using q by (cases "bc_blocked s"; simp add: buf_receive_def to_copy_def)+
  have "pp_ReadFrom n None newConnPacketPipe (value_conn s) =
    (Ok (take n (pk_buf (load ?m p)), pk_addr (load ?m p), pk_err (load ?m p)), value_conn ?s)"
    using q
    by (cases "bc_blocked s") (simp_all add: pp_ReadFrom_def newConnPacketPipe_def value_conn_def buf_receive_def Let_def)
  from value_step.read [OF this, of v "snd (value_of s)" j] show ?thesis
    by (simp add: value_of_def c result_of_load)
next
  case False
  then have "buf_receive j n s = s" by (auto simp: buf_receive_def split: option.split list.split)
  then show ?thesis by simp
qed

lemma receive_frame: "bc_pool (buf_receive j n s) = bc_pool s" "owned_bufs (buf_receive j n s) = owned_bufs s"
  by (auto simp: buf_receive_def Let_def owned_bufs_def packets_of_def split: option.split list.split)

lemma copy_sim: "value_of (buf_copy i s) = value_of s"
proof (cases "i < length (bc_copying s)")
  case True
  let ?m = "bp_mem (bc_pool s)"
  have "mset (to_copy s) = add_mset (result_of ?m (bc_copying s ! i)) (mset (to_copy (buf_copy i s)))"
    using True mset_remove_at [of i "to_copy s"] by (simp add: to_copy_def buf_copy_def Let_def map_remove_at)
  moreover have "value_conn (buf_copy i s) = value_conn s" by (simp add: buf_copy_def value_conn_def Let_def)
  moreover have "bc_got (buf_copy i s) = add_mset (result_of ?m (bc_copying s ! i)) (bc_got s)"
    using True by (simp add: buf_copy_def Let_def)
  ultimately show ?thesis by (simp add: value_of_def)
qed (simp add: buf_copy_def)

lemma copy_frame: "bc_pool (buf_copy i s) = bc_pool s" "owned_bufs (buf_copy i s) = owned_bufs s"
proof -
  show "bc_pool (buf_copy i s) = bc_pool s" by (simp add: buf_copy_def Let_def)
  show "owned_bufs (buf_copy i s) = owned_bufs s"
    using mset_remove_at [of i "bc_copying s", symmetric]
    by (cases "i < length (bc_copying s)") (simp_all add: buf_copy_def Let_def owned_bufs_def packets_of_def)
qed

lemma free_sim:
  assumes "bufs_ok s"
  shows "bufs_ok (buf_free i s) \<and> value_of (buf_free i s) = value_of s"
proof (cases "i < length (bc_freeing s)")
  case True
  let ?a = "bc_freeing s ! i"
  have "mset (bc_freeing s) = add_mset ?a (mset (remove_at i (bc_freeing s)))" by (rule mset_remove_at [OF True, symmetric])
  then have "owned_bufs s = add_mset ?a (owned_bufs (buf_free i s))"
    using True by (simp add: owned_bufs_def packets_of_def buf_free_def)
  then have "owns (pool_Put ?a (bc_pool s)) (owned_bufs (buf_free i s))"
    using assms pool_Put_owns by (simp add: bufs_ok_def)
  then show ?thesis
    using True by (simp add: bufs_ok_def buf_free_def value_of_def value_conn_def to_copy_def pool_Put_def)
qed (use assms in \<open>simp add: buf_free_def\<close>)

subsection \<open>The other users of the pool\<close>

lemma other_sims:
  assumes "bufs_ok s"
  shows "bufs_ok (other_get pick s) \<and> value_of (other_get pick s) = value_of s"
    and "a \<in># bc_others s \<Longrightarrow> bufs_ok (other_write a bs s) \<and> value_of (other_write a bs s) = value_of s"
    and "a \<in># bc_others s \<Longrightarrow> bufs_ok (other_put a s) \<and> value_of (other_put a s) = value_of s"
    and "bufs_ok (s\<lparr>bc_pool := pool_drop i (bc_pool s)\<rparr>) \<and> value_of (s\<lparr>bc_pool := pool_drop i (bc_pool s)\<rparr>) = value_of s"
proof -
  have o: "owns (bc_pool s) (owned_bufs s)" using assms by (simp add: bufs_ok_def)
  obtain x b where g: "GetIPPacketBuf pick (bc_pool s) = (x, b)" by fastforce
  have "\<forall>p\<in>set (packets_of s). bp_mem b (bk_at p) = bp_mem (bc_pool s) (bk_at p)"
    using ip_bufs.get_mem [OF o g] bk_at_owned by blast
  then show "bufs_ok (other_get pick s) \<and> value_of (other_get pick s) = value_of s"
    using value_of_pool [of s b] ip_bufs.get_owned [OF o g]
    by (simp add: other_get_def g bufs_ok_def owned_bufs_def packets_of_def value_of_def value_conn_def to_copy_def)
  show "bufs_ok (other_write a bs s) \<and> value_of (other_write a bs s) = value_of s" if "a \<in># bc_others s"
  proof -
    have "bk_at p \<noteq> a" if "p \<in> set (packets_of s)" for p
      using owns_apart [OF o [unfolded owned_bufs_def]] that \<open>a \<in># bc_others s\<close> by auto
    then have "\<forall>p\<in>set (packets_of s). bp_mem (buf_write a bs (bc_pool s)) (bk_at p) = bp_mem (bc_pool s) (bk_at p)"
      using ip_bufs.write_mem(2) by blast
    then show ?thesis
      using value_of_pool [of s "buf_write a bs (bc_pool s)"] bufs_ok_pool ip_bufs.write_owned [OF o]
      by (simp add: other_write_def)
  qed
  show "bufs_ok (other_put a s) \<and> value_of (other_put a s) = value_of s" if "a \<in># bc_others s"
  proof -
    have "owned_bufs s = add_mset a (owned_bufs (other_put a s))"
      using that by (simp add: owned_bufs_def packets_of_def other_put_def)
    then have "owns (pool_Put a (bc_pool s)) (owned_bufs (other_put a s))" using o pool_Put_owns by simp
    then show ?thesis
      by (simp add: bufs_ok_def other_put_def value_of_def value_conn_def to_copy_def pool_Put_def)
  qed
  have "owns (pool_drop i (bc_pool s)) (owned_bufs s)" using pool_drop_owns [OF o] .
  then show "bufs_ok (s\<lparr>bc_pool := pool_drop i (bc_pool s)\<rparr>) \<and> value_of (s\<lparr>bc_pool := pool_drop i (bc_pool s)\<rparr>) = value_of s"
    using bufs_ok_pool value_of_pool [of s "pool_drop i (bc_pool s)"] by (simp add: pool_drop_def)
qed

section \<open>The simulation\<close>

lemma buf_step_sim:
  assumes "buf_step v s s'" and "bufs_ok s"
  shows "bufs_ok s' \<and> (value_step v)\<^sup>*\<^sup>* (value_of s) (value_of s')"
  using assms
proof (induction rule: buf_step.induct)
  case (arrive s pick r ro s')
  note a = arrive_sim [OF arrive(4,1,2,3)]
  then have "conn_step v (value_conn s) (value_conn s')"
    by (intro conn_step.msg [of _ "InBinary r"]) (simp add: handle_msg_def)
  then show ?case using a value_step.conn [of v _ _ "snd (value_of s)"] by (auto simp: value_of_def)
next
  case (sender s i)
  have "conn_step v (value_conn s) (value_conn (buf_sender i s))" unfolding value_sender by (rule conn_step.sender)
  then show ?case
    using sender bufs_ok_drop [OF _ sender_frame(3) sender_owned] value_step.conn
    by (auto simp: value_of_def to_copy_def sender_frame)
next
  case (sender_gives_up s i)
  have "conn_step v (value_conn s) (value_conn (buf_sender_done i s))"
    unfolding value_done by (rule conn_step.sender_gives_up)
  then show ?case
    using sender_gives_up bufs_ok_drop [OF _ done_frame(3) done_owned(1)] value_step.conn
    by (auto simp: value_of_def to_copy_def done_frame)
next
  case (blocked_gives_up s i)
  have "conn_step v (value_conn s) (value_conn (buf_blocked_done i s))"
    unfolding value_done by (rule conn_step.blocked_gives_up)
  then show ?case
    using blocked_gives_up bufs_ok_drop [OF _ done_frame(6) done_owned(2)] value_step.conn
    by (auto simp: value_of_def to_copy_def done_frame)
next
  case (receive s j n)
  then show ?case
    using receive_sim [of j n s v] receive_frame [of j n s] by (auto simp: bufs_ok_def)
next
  case (copy s i)
  then show ?case by (simp add: copy_sim copy_frame bufs_ok_def)
next
  case (free s i)
  then show ?case using free_sim by simp
next
  case (get_by_other s pick)
  then show ?case using other_sims(1) by simp
next
  case (write_by_other a s bs)
  then show ?case using other_sims(2) by simp
next
  case (put_by_other a s)
  then show ?case using other_sims(3) by simp
next
  case (collect s i)
  then show ?case using other_sims(4) by simp
next
  case (conn s c')
  have "value_conn (s\<lparr>bc_conn := c'\<rparr>) = c'"
    using conn.hyps(2-4) by (intro Conn.equality) (simp_all add: value_conn_def)
  then have "value_of (s\<lparr>bc_conn := c'\<rparr>) = (c', snd (value_of s))" by (simp add: value_of_def to_copy_def)
  then show ?case
    using conn value_step.conn by (auto simp: bufs_ok_def owned_bufs_def packets_of_def value_of_def)
next
  case (channel s c')
  let ?s = "s\<lparr>bc_conn := c', bc_queue := map_option (\<lambda>_. []) (packetDataCh c')\<rparr>"
  have "value_conn ?s = c'"
    using channel.hyps(2-4) by (intro Conn.equality) (auto simp: value_conn_def)
  then have "value_of ?s = (c', snd (value_of s))" by (simp add: value_of_def to_copy_def)
  moreover have "owned_bufs ?s \<subseteq># owned_bufs s"
    by (cases "packetDataCh c'") (auto simp: owned_bufs_def packets_of_def)
  then have "bufs_ok ?s" using bufs_ok_drop [OF channel.prems] by simp
  ultimately show ?case using channel(1) value_step.conn by (auto simp: value_of_def)
qed

interpretation packets: simulation "buf_step v" "value_step v" value_of bufs_ok for v
  by unfold_locales (auto dest: buf_step_sim)

section \<open>Properties\<close>

text \<open>A connection with an empty pool and no packets.\<close>

definition fresh_bconn :: "Conn \<Rightarrow> bconn" where
  "fresh_bconn c = \<lparr>bc_conn = c, bc_spawned = [], bc_queue = None, bc_blocked = [], bc_copying = [],
     bc_freeing = [], bc_got = {#}, bc_pool = no_bufs, bc_others = {#}\<rparr>"

definition buf_reachable :: "env \<Rightarrow> bconn \<Rightarrow> bool" where
  "buf_reachable v s \<longleftrightarrow> (\<exists>c. initial c \<and> (buf_step v)\<^sup>*\<^sup>* (fresh_bconn c) s)"

lemma fresh_ok: "bufs_ok (fresh_bconn c)"
  by (simp add: bufs_ok_def owns_def owned_bufs_def packets_of_def fresh_bconn_def no_bufs_def)

lemma fresh_value: "initial c \<Longrightarrow> value_of (fresh_bconn c) = (c, {#})"
  by (auto simp: value_of_def value_conn_def to_copy_def fresh_bconn_def initial_def WrapConn_def)

lemma buf_reachable_ok: "buf_reachable v s \<Longrightarrow> bufs_ok s"
  using packets.inv_run fresh_ok by (auto simp: buf_reachable_def)

lemma value_steps_reachable: "(value_step v)\<^sup>*\<^sup>* (c, g) (c', g') \<Longrightarrow> (conn_step v)\<^sup>*\<^sup>* c c'"
proof (induction "(c, g)" arbitrary: c g rule: converse_rtranclp_induct)
  case (step y)
  from step(1) have "conn_step v c (fst y)"
    by (cases rule: value_step.cases) (auto intro: conn_step.packet_read)
  then show ?case using step(3) [of "fst y" "snd y"] by (simp add: converse_rtranclp_into_rtranclp)
qed simp

text \<open>C10: The packets in pooled buffers refine the packets as values. Whatever the goroutines that
  read messages, offer packets, read from the pipe, copy and free do, and whatever every other user
  of the same pool does in between, each run of the machine of buffers is, read through the memory, a
  run of the connection of values, which receives, queues and returns the same packets.\<close>

theorem packet_buffers_refine:
  assumes "initial c" and "(buf_step v)\<^sup>*\<^sup>* (fresh_bconn c) s"
  shows "(value_step v)\<^sup>*\<^sup>* (c, {#}) (value_of s) \<and> reachable v (value_conn s)"
proof -
  have "(value_step v)\<^sup>*\<^sup>* (c, {#}) (value_of s)"
    using packets.sim_run [OF assms(2) fresh_ok] by (simp add: fresh_value [OF assms(1)])
  then show ?thesis
    using value_steps_reachable [of v c "{#}" "value_conn s"] assms(1) by (auto simp: value_of_def reachable_def)
qed

theorem packet_buffers_refine_witness:
  "reachable no_env (value_conn (buf_sender 0 (other_get (Some 3) (fresh_bconn WrapConn))))"
proof (rule packet_buffers_refine [THEN conjunct2])
  show "(buf_step no_env)\<^sup>*\<^sup>* (fresh_bconn WrapConn) (buf_sender 0 (other_get (Some 3) (fresh_bconn WrapConn)))"
    using buf_step.get_by_other [of no_env "fresh_bconn WrapConn" "Some 3"]
      buf_step.sender [of no_env "other_get (Some 3) (fresh_bconn WrapConn)" 0]
    by (rule converse_rtranclp_into_rtranclp [OF _ r_into_rtranclp])
qed simp

text \<open>C11: No buffer ever has two owners. In every reachable state a buffer is at most once among those
  free in the pool, those of the packets that wait or are being copied, those about to be freed and
  those of all other goroutines: none is freed twice and none is handed out while it is in use.\<close>

theorem buffer_one_owner:
  assumes "buf_reachable v s"
  shows "count (mset (bp_free (bc_pool s)) + mset (map bk_at (packets_of s)) + mset (bc_freeing s) + bc_others s) a \<le> 1"
  using buf_reachable_ok [OF assms] by (simp add: bufs_ok_def owns_def owned_bufs_def ac_simps)

theorem buffer_one_owner_witness:
  "count (mset (bp_free (bc_pool (other_get None (fresh_bconn WrapConn)))) +
     mset (map bk_at (packets_of (other_get None (fresh_bconn WrapConn)))) +
     mset (bc_freeing (other_get None (fresh_bconn WrapConn))) + bc_others (other_get None (fresh_bconn WrapConn))) 0 \<le> 1"
proof (rule buffer_one_owner)
  have "buf_step no_env (fresh_bconn WrapConn) (other_get None (fresh_bconn WrapConn))" by (rule buf_step.get_by_other)
  then show "buf_reachable no_env (other_get None (fresh_bconn WrapConn))"
    unfolding buf_reachable_def by (intro exI [of _ WrapConn]) auto
qed

lemma got_stable: "x \<in># snd a \<Longrightarrow> value_step v a b \<Longrightarrow> x \<in># snd b"
  by (auto elim!: value_step.cases)

text \<open>C36: A read returns the packet that it received. Between the receive from the channel and the
  copy into the user's buffer any other goroutine may run, take buffers, fill and free them; the call
  still returns the bytes, the address and the error that the packet had when it was received.\<close>

theorem read_returns_its_packet:
  assumes "buf_reachable v s" and "(j, p, n) \<in> set (bc_copying s)"
    and "(buf_step v)\<^sup>*\<^sup>* s s'" and "bc_copying s' = []"
  shows "(j, take n (pk_buf (load (bp_mem (bc_pool s)) p)), bk_addr p, bk_err p) \<in># bc_got s'"
proof -
  let ?x = "result_of (bp_mem (bc_pool s)) (j, p, n)"
  have "?x \<in># snd (value_of s)" using assms(2) by (auto simp: value_of_def to_copy_def)
  then have "?x \<in># snd (value_of s')"
    by (rule packets.stable_run [where Q = "\<lambda>a. ?x \<in># snd a", rotated 3])
      (auto intro: got_stable assms(3) buf_reachable_ok [OF assms(1)])
  then show ?thesis using assms(4) by (simp add: value_of_def to_copy_def result_of_def)
qed

text \<open>A connection in packet mode with one packet in its channel.\<close>

definition opening_conn :: Conn where
  "opening_conn = snd (listen_start ''udp'' '':0'' WrapConn)"

definition listening_conn :: Conn where
  "listening_conn = snd (listen_finish \<lparr>sa_network = [], sa_addr = []\<rparr> opening_conn)"

lemma opening_conn_eq:
  "opening_conn = WrapConn\<lparr>status := StatusInOper, onResult := Some (OnDial 0), next_id := 1,
     packetDataCh := Some [], ws_out := [Text (open_cmd cmdOpenPacket ''udp'' '':0'')]\<rparr>"
  by (simp add: opening_conn_def listen_start_def open_start_def with_lock_def sbind_def sendCmd_def close_on_err_def
      ws_write_def WrapConn_def)

lemma listening_conn_eq:
  "listening_conn = opening_conn\<lparr>onCmdErr := Some (CmdErrPacket 1), status := StatusPacket, next_id := 2\<rparr>"
  by (simp add: listening_conn_def listen_finish_def with_lock_def Let_def opening_conn_eq WrapConn_def)

definition one_packet :: bconn where
  "one_packet = buf_sender 0 (snd (buf_binary None \<lparr>rd_chunks = [[0, 0, 7]], rd_end = EOF\<rparr>
     ((fresh_bconn listening_conn)\<lparr>bc_queue := Some []\<rparr>)))"

lemma one_packet_reachable: "buf_reachable no_env one_packet"
proof -
  let ?s0 = "fresh_bconn WrapConn" and ?s1 = "(fresh_bconn opening_conn)\<lparr>bc_queue := Some []\<rparr>"
    and ?s2 = "(fresh_bconn listening_conn)\<lparr>bc_queue := Some []\<rparr>"
  let ?s3 = "snd (buf_binary None \<lparr>rd_chunks = [[0, 0, 7]], rd_end = EOF\<rparr> ?s2)"
  have v: "value_conn ?s0 = WrapConn" "value_conn ?s1 = opening_conn"
    by (simp_all add: value_conn_def fresh_bconn_def opening_conn_eq WrapConn_def)
  have "conn_step no_env WrapConn opening_conn"
    unfolding opening_conn_def by (rule conn_step.listen) (simp add: prod_eq_iff)
  then have "buf_step no_env ?s0 (?s0\<lparr>bc_conn := opening_conn, bc_queue := map_option (\<lambda>_. []) (packetDataCh opening_conn)\<rparr>)"
    by (intro buf_step.channel) (simp_all only: v, simp_all add: opening_conn_eq WrapConn_def)
  then have 1: "buf_step no_env ?s0 ?s1" by (simp add: opening_conn_eq fresh_bconn_def)
  have "conn_step no_env opening_conn listening_conn"
    unfolding listening_conn_def by (rule conn_step.listen_end) (simp add: prod_eq_iff)
  then have "buf_step no_env ?s1 (?s1\<lparr>bc_conn := listening_conn\<rparr>)"
    by (intro buf_step.conn) (simp_all only: v, simp_all add: listening_conn_eq)
  then have 2: "buf_step no_env ?s1 ?s2" by (simp add: fresh_bconn_def)
  have 3: "buf_step no_env ?s2 ?s3"
    by (rule buf_step.arrive [OF _ _ prod.collapse [symmetric]])
      (simp_all add: fresh_bconn_def listening_conn_eq opening_conn_eq WrapConn_def)
  have 4: "buf_step no_env ?s3 one_packet" unfolding one_packet_def by (rule buf_step.sender)
  have "(buf_step no_env)\<^sup>*\<^sup>* ?s0 one_packet"
    by (rule converse_rtranclp_into_rtranclp [OF 1 converse_rtranclp_into_rtranclp [OF 2
          converse_rtranclp_into_rtranclp [OF 3 r_into_rtranclp [of "buf_step no_env", OF 4]]]])
  then show ?thesis unfolding buf_reachable_def by (intro exI [of _ WrapConn]) simp
qed

theorem read_returns_its_packet_witness:
  "(1, [7], \<lparr>sa_network = [], sa_addr = []\<rparr>, None) \<in># bc_got (buf_copy 0 (buf_receive 1 10 one_packet))"
proof -
  have r: "read_packet \<lparr>rd_chunks = [[0, 0, 7]], rd_end = EOF\<rparr> =
      Ok \<lparr>pk_addr = \<lparr>sa_network = [], sa_addr = []\<rparr>, pk_buf = [7], pk_err = None\<rparr>"
    using read_packet_one_chunk [of "\<lparr>sa_network = [], sa_addr = []\<rparr>" "[7]"]
    by (simp add: packet_frame_def header_size_def len_byte_def bytes_of_def)
  let ?p = "\<lparr>bk_addr = \<lparr>sa_network = [], sa_addr = []\<rparr>, bk_at = 0, bk_len = 1, bk_err = None\<rparr>"
  have q: "bc_queue one_packet = Some [?p]" "bc_blocked one_packet = []" "bc_copying one_packet = []"
      "take 1 (bp_mem (bc_pool one_packet) 0) = [7]"
    by (simp_all add: one_packet_def buf_binary_def r GetIPPacketBuf_def pool_Get_def fresh_bconn_def no_bufs_def
        buf_sender_def packetChCap_def buf_write_def)
  let ?s = "buf_receive 1 10 one_packet"
  have s: "bc_copying ?s = [(1, ?p, 10)]" "bc_pool ?s = bc_pool one_packet"
    using q by (simp_all add: buf_receive_def Let_def)
  have "(1, take 10 (pk_buf (load (bp_mem (bc_pool ?s)) ?p)), bk_addr ?p, bk_err ?p) \<in># bc_got (buf_copy 0 ?s)"
  proof (rule read_returns_its_packet)
    show "buf_reachable no_env ?s"
      using one_packet_reachable buf_step.receive [of no_env one_packet 1 10] unfolding buf_reachable_def
      by (auto intro: rtranclp.rtrancl_into_rtrancl)
    show "(buf_step no_env)\<^sup>*\<^sup>* ?s (buf_copy 0 ?s)" using buf_step.copy by blast
    show "(1, ?p, 10) \<in> set (bc_copying ?s)" "bc_copying (buf_copy 0 ?s) = []"
      using s by (simp_all add: buf_copy_def Let_def)
  qed
  then show ?thesis using q(4) s(2) by (simp add: load_def)
qed

text \<open>\<open>sendPacketData\<close> does with a pooled buffer what it does without: whatever a buffer held that
  the pool hands out, the message written is the frame of the packet and nothing else, with the
  same outcome; and the buffers in use elsewhere keep their owners and their bytes.\<close>

theorem send_packet_buffer:
  assumes "owns s M" and "b \<in># M"
  shows "fst (sendPacketData_buf pick data ad s c) = sendPacketData data ad c \<and>
    owns (snd (sendPacketData_buf pick data ad s c)) M \<and>
    bp_mem (snd (sendPacketData_buf pick data ad s c)) b = bp_mem s b"
  using sendPacketData_buf_eq sendPacketData_buf_owns [OF assms] by blast

theorem send_packet_buffer_witness:
  "fst (sendPacketData_buf (Some 0) [7] \<lparr>sa_network = [], sa_addr = []\<rparr>
      \<lparr>bp_mem = (\<lambda>_. [1, 2, 3]), bp_free = [0], bp_next = 2\<rparr> WrapConn) =
    sendPacketData [7] \<lparr>sa_network = [], sa_addr = []\<rparr> WrapConn"
  using send_packet_buffer [of "\<lparr>bp_mem = (\<lambda>_. [1, 2, 3]), bp_free = [0], bp_next = 2\<rparr>" "{#1#}" 1]
  by (simp add: owns_def)

end
