(* ===== verification/Wire_Sessions.thy ===== *)
theory Wire_Sessions
  imports Wire_Session
begin

text \<open>
  One connection serving many streams, one after the other, as the client's idle pool makes it do:
  each session is a dial, a data phase in both directions, an end by the user or by the target, and
  the return of both \<open>serveStream\<close> goroutines. The last section is the interleaving in which the
  goroutine of one session acts on the next.
\<close>

section \<open>The data phase in every interleaving\<close>

text \<open>The events of the data phase: either goroutine reads from its stream and sends, either reader
  loop handles the next message.\<close>

fun data_event :: "event \<Rightarrow> bool" where
  "data_event (CRead (SData d)) = (d \<noteq> [])"
| "data_event (SRead (SData d)) = (d \<noteq> [])"
| "data_event ToServer = True"
| "data_event ToClient = True"
| "data_event _ = False"

fun up_by :: "event \<Rightarrow> bytes list" where
  "up_by (CRead (SData d)) = [d]"
| "up_by _ = []"

fun down_by :: "event \<Rightarrow> bytes list" where
  "down_by (SRead (SData d)) = [d]"
| "down_by _ = []"

definition sent_up :: "event list \<Rightarrow> bytes list" where "sent_up evs = concat (map up_by evs)"
definition sent_down :: "event list \<Rightarrow> bytes list" where "sent_down evs = concat (map down_by evs)"

text \<open>The link since the state \<open>l0\<close> in which the stream was opened: \<open>us\<close> and \<open>ds\<close> are what has been
  read from the two streams, of which \<open>i\<close> and \<open>j\<close> pieces have arrived and been written.\<close>

definition flowing ::
  "stream \<Rightarrow> stream \<Rightarrow> link \<Rightarrow> bytes list \<Rightarrow> bytes list \<Rightarrow> nat \<Rightarrow> nat \<Rightarrow> link \<Rightarrow> bool" where
  "flowing s q l0 us ds i j l \<longleftrightarrow> end_ready q (cl l) \<and> end_ready s (sv l) \<and> i \<le> length us \<and> j \<le> length ds \<and>
     ws_out (cl l) = ws_out (cl l0) @ map Binary us \<and> to_sv l = length (ws_out (cl l0)) + i \<and>
     ws_out (sv l) = ws_out (sv l0) @ map Binary ds \<and> to_cl l = length (ws_out (sv l0)) + j \<and>
     effs (sv l) = effs (sv l0) @ map (EWrite s) (take i us) \<and>
     effs (cl l) = effs (cl l0) @ map (EWrite q) (take j ds) \<and> (\<forall>d\<in>set us \<union> set ds. d \<noteq> []) \<and>
     next_id (cl l) = next_id (cl l0) \<and> next_id (sv l) = next_id (sv l0) \<and>
     set (outs l) \<subseteq> insert (Ok ()) (set (outs l0))"

lemma flowing_start: "streaming s q l \<Longrightarrow> flowing s q l [] [] 0 0 l"
  by (auto simp: flowing_def streaming_def)

lemma flowing_done: "flowing s q l0 us ds (length us) (length ds) l \<Longrightarrow> streaming s q l"
  by (simp add: flowing_def streaming_def)

lemmas flow_eval =
  link_step_def incoming_of_def void_def read_round_def handle_msg_def handleBinary_def run_binary_def close_on_err_def
  ws_write_def with_lock_def sbind_def sret_def emit_def stream_write_def

lemma flow_reads:
  assumes "flowing s q l0 us ds i j l" and "d \<noteq> []"
  shows "flowing s q l0 (us @ [d]) ds i j (link_step cv v l (CRead (SData d)))"
    and "flowing s q l0 us (ds @ [d]) i j (link_step cv v l (SRead (SData d)))"
  using assms by (auto simp: flowing_def end_ready_def flow_eval)

lemma flow_arrives:
  assumes "flowing s q l0 us ds i j l"
  shows "flowing s q l0 us ds (min (length us) (Suc i)) j (link_step cv v l ToServer)"
    and "flowing s q l0 us ds i (min (length ds) (Suc j)) (link_step cv v l ToClient)"
proof -
  show "flowing s q l0 us ds (min (length us) (Suc i)) j (link_step cv v l ToServer)"
  proof (cases "i < length us")
    case True
    then have "us ! i \<noteq> []" using assms nth_mem [OF True] unfolding flowing_def by blast
    then show ?thesis
      using assms True by (auto simp: flowing_def end_ready_def flow_eval nth_append take_Suc_conv_app_nth)
  next
    case False
    then show ?thesis using assms by (simp add: flowing_def link_step_def min_absorb1)
  qed
  show "flowing s q l0 us ds i (min (length ds) (Suc j)) (link_step cv v l ToClient)"
  proof (cases "j < length ds")
    case True
    then have "ds ! j \<noteq> []" using assms nth_mem [OF True] unfolding flowing_def by blast
    then show ?thesis
      using assms True by (auto simp: flowing_def end_ready_def flow_eval nth_append take_Suc_conv_app_nth)
  next
    case False
    then show ?thesis using assms by (simp add: flowing_def link_step_def min_absorb1)
  qed
qed

lemma flow_step:
  assumes "flowing s q l0 us ds i j l" and "data_event ev"
  shows "\<exists>i' j'. flowing s q l0 (us @ up_by ev) (ds @ down_by ev) i' j' (link_step cv v l ev)"
proof -
  consider (up) d where "ev = CRead (SData d)" "d \<noteq> []" | (down) d where "ev = SRead (SData d)" "d \<noteq> []"
    | (server) "ev = ToServer" | (client) "ev = ToClient"
    using assms(2) by (cases ev rule: data_event.cases) auto
  then show ?thesis
  proof cases
    case up
    then show ?thesis using flow_reads(1) [OF assms(1), of d cv v] by auto
  next
    case down
    then show ?thesis using flow_reads(2) [OF assms(1), of d cv v] by auto
  next
    case server
    then show ?thesis using flow_arrives(1) [OF assms(1), of cv v] by auto
  next
    case client
    then show ?thesis using flow_arrives(2) [OF assms(1), of cv v] by auto
  qed
qed

lemma flow_run:
  assumes "flowing s q l0 us ds i j l" and "\<forall>ev\<in>set evs. data_event ev"
  shows "\<exists>i' j'. flowing s q l0 (us @ sent_up evs) (ds @ sent_down evs) i' j' (link_run cv v evs l)"
  using assms
proof (induction evs arbitrary: us ds i j l)
  case Nil
  then show ?case by (auto simp: link_run_Nil sent_up_def sent_down_def)
next
  case (Cons ev evs)
  obtain i' j' where "flowing s q l0 (us @ up_by ev) (ds @ down_by ev) i' j' (link_step cv v l ev)"
    using flow_step [OF Cons.prems(1), of ev cv v] Cons.prems(2) by auto
  from Cons.IH [OF this] Cons.prems(2) show ?case
    by (simp add: link_run_Cons sent_up_def sent_down_def)
qed

text \<open>The reader loops catch up.\<close>

definition flush :: "nat \<Rightarrow> nat \<Rightarrow> event list" where
  "flush m n = replicate m ToServer @ replicate n ToClient"

lemma flow_flush_up:
  assumes "flowing s q l0 us ds i j l" and "length us \<le> i + m"
  shows "flowing s q l0 us ds (length us) j (link_run cv v (replicate m ToServer) l)"
  using assms
proof (induction m arbitrary: i l)
  case 0
  then have "i = length us" by (simp add: flowing_def)
  then show ?case using 0 by (simp add: link_run_Nil)
next
  case (Suc m)
  then show ?case using Suc.IH [OF flow_arrives(1) [OF Suc.prems(1)]] by (simp add: link_run_Cons)
qed

lemma flow_flush_down:
  assumes "flowing s q l0 us ds i j l" and "length ds \<le> j + n"
  shows "flowing s q l0 us ds i (length ds) (link_run cv v (replicate n ToClient) l)"
  using assms
proof (induction n arbitrary: j l)
  case 0
  then have "j = length ds" by (simp add: flowing_def)
  then show ?case using 0 by (simp add: link_run_Nil)
next
  case (Suc n)
  then show ?case using Suc.IH [OF flow_arrives(2) [OF Suc.prems(1)]] by (simp add: link_run_Cons)
qed

lemma flow_flush:
  assumes "flowing s q l0 us ds i j l"
  shows "flowing s q l0 us ds (length us) (length ds) (link_run cv v (flush (length us) (length ds)) l)"
  unfolding flush_def link_run_append
  using flow_flush_down [OF flow_flush_up [OF assms, of "length us"], of "length ds"] by simp

text \<open>The first session of a link: its data phase at any moment, and when everything has arrived.\<close>

lemma first_flow:
  assumes "CHR '';'' \<notin> set p" and "admits v p t la" and "\<forall>ev\<in>set evs. data_event ev"
  shows "\<exists>l0 l i j. link_run cv v (dialling p t @ evs) idle_link = l \<and> streaming (Target 0) (Pipe 1) l0 \<and>
    flowing (Target 0) (Pipe 1) l0 (sent_up evs) (sent_down evs) i j l \<and>
    effs (sv l0) = [EDial p t, EServeStream (Target 0)] \<and> effs (cl l0) = [EServeStream (Pipe 1)] \<and>
    set (outs l0) = {Ok ()} \<and> to_sv l0 = 1 \<and> to_cl l0 = 1 \<and> ws_out (sv l0) = [Text (reply_true la)]"
proof -
  obtain l0 where l0: "link_run cv v (dialling p t) idle_link = l0" "streaming (Target 0) (Pipe 1) l0"
    "effs (sv l0) = [EDial p t, EServeStream (Target 0)]" "effs (cl l0) = [EServeStream (Pipe 1)]"
    "set (outs l0) = {Ok ()}" "to_sv l0 = 1" "to_cl l0 = 1" "ws_out (sv l0) = [Text (reply_true la)]"
    using opened [OF assms(1) resting_idle assms(2), of cv] by (auto simp: idle_link_def WrapConn_def)
  obtain i j l where l: "link_run cv v evs l0 = l"
    "flowing (Target 0) (Pipe 1) l0 (sent_up evs) (sent_down evs) i j l"
    using flow_run [OF flowing_start [OF l0(2)] assms(3), of cv v] by auto
  have "link_run cv v (dialling p t @ evs) idle_link = l" by (simp only: link_run_append l0(1) l(1))
  then show ?thesis using l(2) l0(2-) by blast
qed

lemma first_flow_complete:
  assumes "CHR '';'' \<notin> set p" and "admits v p t la" and "\<forall>ev\<in>set evs. data_event ev"
  shows "\<exists>l. link_run cv v (dialling p t @ evs @ flush (length (sent_up evs)) (length (sent_down evs))) idle_link = l \<and>
    effs (sv l) = [EDial p t, EServeStream (Target 0)] @ map (EWrite (Target 0)) (sent_up evs) \<and>
    effs (cl l) = EServeStream (Pipe 1) # map (EWrite (Pipe 1)) (sent_down evs) \<and>
    ws_out (sv l) = Text (reply_true la) # map Binary (sent_down evs)"
proof -
  let ?f = "flush (length (sent_up evs)) (length (sent_down evs))"
  obtain l0 l i j where l: "link_run cv v (dialling p t @ evs) idle_link = l"
    "flowing (Target 0) (Pipe 1) l0 (sent_up evs) (sent_down evs) i j l"
    "effs (sv l0) = [EDial p t, EServeStream (Target 0)]" "effs (cl l0) = [EServeStream (Pipe 1)]"
    "ws_out (sv l0) = [Text (reply_true la)]"
    using first_flow [OF assms, of cv] by auto
  from flow_flush [OF l(2), of cv v] have
    "effs (sv (link_run cv v ?f l)) = [EDial p t, EServeStream (Target 0)] @ map (EWrite (Target 0)) (sent_up evs)"
    "effs (cl (link_run cv v ?f l)) = EServeStream (Pipe 1) # map (EWrite (Pipe 1)) (sent_down evs)"
    "ws_out (sv (link_run cv v ?f l)) = Text (reply_true la) # map Binary (sent_down evs)"
    using l(3-5) by (simp_all add: flowing_def)
  moreover have "link_run cv v (dialling p t @ evs @ ?f) idle_link = link_run cv v ?f l"
    using l(1) by (simp add: link_run_append)
  ultimately show ?thesis by blast
qed

section \<open>Sessions\<close>

datatype ender = ByUser | ByTarget

text \<open>\<open>ses_events\<close> are the events of the data phase, and \<open>ses_error\<close> is what the other side's
  goroutine reads from a stream that its own connection has closed.\<close>

record session =
  ses_protocol :: string
  ses_target :: string
  ses_events :: "event list"
  ses_ender :: ender
  ses_error :: read_error

definition ses_ups :: "session \<Rightarrow> bytes list" where "ses_ups x = sent_up (ses_events x)"
definition ses_downs :: "session \<Rightarrow> bytes list" where "ses_downs x = sent_down (ses_events x)"

definition ending :: "ender \<Rightarrow> read_error \<Rightarrow> stream \<Rightarrow> stream \<Rightarrow> event list" where
  "ending w e p s =
     (case w of
        ByUser \<Rightarrow> [CRead (SEnd ReadEnd), ToServer, ToClient, CDone p, SRead (SEnd e), SDone s]
      | ByTarget \<Rightarrow> [SRead (SEnd ReadEnd), ToClient, ToServer, SDone s, CRead (SEnd e), CDone p])"

text \<open>The numbers that the two ends use up: the client one for the dial's channel and one for the
  pipe, the server one for the target, and the side that ends the session one for its wait.\<close>

definition cl_after :: "session \<Rightarrow> nat \<Rightarrow> nat" where
  "cl_after x n = (case ses_ender x of ByUser \<Rightarrow> n + 3 | ByTarget \<Rightarrow> n + 2)"

definition sv_after :: "session \<Rightarrow> nat \<Rightarrow> nat" where
  "sv_after x m = (case ses_ender x of ByUser \<Rightarrow> m + 1 | ByTarget \<Rightarrow> m + 2)"

definition session_events :: "session \<Rightarrow> nat \<Rightarrow> nat \<Rightarrow> event list" where
  "session_events x n m =
     dialling (ses_protocol x) (ses_target x) @ ses_events x @ flush (length (ses_ups x)) (length (ses_downs x)) @
     ending (ses_ender x) (ses_error x) (Pipe (Suc n)) (Target m)"

fun sessions_events :: "session list \<Rightarrow> nat \<Rightarrow> nat \<Rightarrow> event list" where
  "sessions_events [] n m = []"
| "sessions_events (x # xs) n m =
     session_events x n m @ sessions_events xs (cl_after x n) (sv_after x m)"

definition valid_session :: "env \<Rightarrow> session \<Rightarrow> bool" where
  "valid_session v x \<longleftrightarrow> CHR '';'' \<notin> set (ses_protocol x) \<and> (\<exists>la. admits v (ses_protocol x) (ses_target x) la) \<and> (\<forall>ev\<in>set (ses_events x). data_event ev)"

text \<open>What the server does for a session: the dial, the writes to the target, and its closing by the
  connection, by the goroutine or by both. What the client does: the writes to the user's pipe.\<close>

definition sv_session :: "session \<Rightarrow> nat \<Rightarrow> effect list" where
  "sv_session x m =
     [EDial (ses_protocol x) (ses_target x), EServeStream (Target m)] @
     map (EWrite (Target m)) (ses_ups x) @
     (case ses_ender x of ByUser \<Rightarrow> [EClose (Target m), EClose (Target m)] | ByTarget \<Rightarrow> [EClose (Target m)])"

definition cl_session :: "session \<Rightarrow> nat \<Rightarrow> effect list" where
  "cl_session x n =
     EServeStream (Pipe (Suc n)) # map (EWrite (Pipe (Suc n))) (ses_downs x) @
     (case ses_ender x of ByUser \<Rightarrow> [EClose (Pipe (Suc n))] | ByTarget \<Rightarrow> [EClose (Pipe (Suc n)), EClose (Pipe (Suc n))])"

fun sv_sessions :: "session list \<Rightarrow> nat \<Rightarrow> effect list" where
  "sv_sessions [] m = []"
| "sv_sessions (x # xs) m = sv_session x m @ sv_sessions xs (sv_after x m)"

fun cl_sessions :: "session list \<Rightarrow> nat \<Rightarrow> effect list" where
  "cl_sessions [] n = []"
| "cl_sessions (x # xs) n = cl_session x n @ cl_sessions xs (cl_after x n)"

section \<open>One session\<close>

text \<open>The end of a session, from the streaming state back to rest.\<close>

lemma ended:
  assumes "streaming s p l"
  shows "\<exists>l'. link_run cv v (ending w e p s) l = l' \<and> resting l' \<and>
    effs (sv l') = effs (sv l) @ (case w of ByUser \<Rightarrow> [EClose s, EClose s] | ByTarget \<Rightarrow> [EClose s]) \<and>
    effs (cl l') = effs (cl l) @ (case w of ByUser \<Rightarrow> [EClose p] | ByTarget \<Rightarrow> [EClose p, EClose p]) \<and>
    next_id (cl l') = (case w of ByUser \<Rightarrow> Suc (next_id (cl l)) | ByTarget \<Rightarrow> next_id (cl l)) \<and>
    next_id (sv l') = (case w of ByUser \<Rightarrow> next_id (sv l) | ByTarget \<Rightarrow> Suc (next_id (sv l))) \<and>
    set (outs l') \<subseteq> insert (Ok ()) (set (outs l))"
  using assms
  by (cases w) (simp_all add: ending_def streaming_def end_ready_def resting_def at_rest_def link_eval insert_commute)

lemma one_session:
  assumes "resting l" and "valid_session v x"
  shows "\<exists>l'. link_run cv v (session_events x (next_id (cl l)) (next_id (sv l))) l = l' \<and>
    resting l' \<and> effs (sv l') = effs (sv l) @ sv_session x (next_id (sv l)) \<and>
    effs (cl l') = effs (cl l) @ cl_session x (next_id (cl l)) \<and>
    next_id (cl l') = cl_after x (next_id (cl l)) \<and> next_id (sv l') = sv_after x (next_id (sv l)) \<and>
    set (outs l') \<subseteq> insert (Ok ()) (set (outs l))"
proof -
  let ?r = "link_run cv v" and ?n = "next_id (cl l)" and ?m = "next_id (sv l)"
  obtain la where la: "admits v (ses_protocol x) (ses_target x) la" using assms(2) by (auto simp: valid_session_def)
  obtain l1 where l1: "?r (dialling (ses_protocol x) (ses_target x)) l = l1"
    "streaming (Target ?m) (Pipe (Suc ?n)) l1"
    "effs (sv l1) = effs (sv l) @ [EDial (ses_protocol x) (ses_target x), EServeStream (Target ?m)]"
    "effs (cl l1) = effs (cl l) @ [EServeStream (Pipe (Suc ?n))]"
    "next_id (cl l1) = ?n + 2" "next_id (sv l1) = Suc ?m" "set (outs l1) = insert (Ok ()) (set (outs l))"
    using opened [OF _ assms(1) la, of cv] assms(2) by (auto simp: valid_session_def)
  obtain i j where "flowing (Target ?m) (Pipe (Suc ?n)) l1 (ses_ups x) (ses_downs x) i j (?r (ses_events x) l1)"
    using flow_run [OF flowing_start [OF l1(2)], of "ses_events x" cv v] assms(2)
    by (auto simp: valid_session_def ses_ups_def ses_downs_def)
  then obtain l2 where l2: "?r (ses_events x @ flush (length (ses_ups x)) (length (ses_downs x))) l1 = l2"
    "flowing (Target ?m) (Pipe (Suc ?n)) l1 (ses_ups x) (ses_downs x) (length (ses_ups x)) (length (ses_downs x)) l2"
    using flow_flush by (fastforce simp: link_run_append)
  have e2: "effs (sv l2) = effs (sv l1) @ map (EWrite (Target ?m)) (ses_ups x)"
    "effs (cl l2) = effs (cl l1) @ map (EWrite (Pipe (Suc ?n))) (ses_downs x)"
    "next_id (cl l2) = next_id (cl l1)" "next_id (sv l2) = next_id (sv l1)"
    "set (outs l2) \<subseteq> insert (Ok ()) (set (outs l1))"
    using l2(2) by (simp_all add: flowing_def)
  obtain l3 where l3: "?r (ending (ses_ender x) (ses_error x) (Pipe (Suc ?n)) (Target ?m)) l2 = l3" "resting l3"
    "effs (sv l3) = effs (sv l2) @ (case ses_ender x of ByUser \<Rightarrow> [EClose (Target ?m), EClose (Target ?m)]
       | ByTarget \<Rightarrow> [EClose (Target ?m)])"
    "effs (cl l3) = effs (cl l2) @ (case ses_ender x of ByUser \<Rightarrow> [EClose (Pipe (Suc ?n))]
       | ByTarget \<Rightarrow> [EClose (Pipe (Suc ?n)), EClose (Pipe (Suc ?n))])"
    "next_id (cl l3) = (case ses_ender x of ByUser \<Rightarrow> Suc (next_id (cl l2)) | ByTarget \<Rightarrow> next_id (cl l2))"
    "next_id (sv l3) = (case ses_ender x of ByUser \<Rightarrow> next_id (sv l2) | ByTarget \<Rightarrow> Suc (next_id (sv l2)))"
    "set (outs l3) \<subseteq> insert (Ok ()) (set (outs l2))"
    using ended [OF flowing_done [OF l2(2)], of cv v "ses_ender x" "ses_error x"] by auto
  have o: "set (outs l3) \<subseteq> insert (Ok ()) (set (outs l))" using l3(7) e2(5) l1(7) by auto
  show ?thesis
    using l1 l2(1) l3 e2 o by (cases "ses_ender x") (auto simp: session_events_def link_run_append sv_session_def cl_session_def
        cl_after_def sv_after_def)
qed

lemma all_sessions:
  assumes "resting l" and "\<forall>x\<in>set xs. valid_session v x"
  shows "\<exists>l'. link_run cv v (sessions_events xs (next_id (cl l)) (next_id (sv l))) l = l' \<and>
    resting l' \<and> effs (sv l') = effs (sv l) @ sv_sessions xs (next_id (sv l)) \<and>
    effs (cl l') = effs (cl l) @ cl_sessions xs (next_id (cl l)) \<and>
    set (outs l') \<subseteq> insert (Ok ()) (set (outs l))"
  using assms
proof (induction xs arbitrary: l)
  case Nil
  then show ?case by (auto simp: link_run_Nil)
next
  case (Cons x xs)
  obtain l1 where l1: "link_run cv v (session_events x (next_id (cl l)) (next_id (sv l))) l = l1"
    "resting l1" "effs (sv l1) = effs (sv l) @ sv_session x (next_id (sv l))"
    "effs (cl l1) = effs (cl l) @ cl_session x (next_id (cl l))"
    "next_id (cl l1) = cl_after x (next_id (cl l))" "next_id (sv l1) = sv_after x (next_id (sv l))"
    "set (outs l1) \<subseteq> insert (Ok ()) (set (outs l))"
    using one_session [OF Cons.prems(1), of v x cv] Cons.prems(2) by auto
  have "\<forall>x\<in>set xs. valid_session v x" using Cons.prems(2) by simp
  from Cons.IH [OF l1(2) this] show ?case using l1(1,3-7) by (auto simp: link_run_append)
qed

section \<open>A session cut short\<close>

lemma hung_up:
  assumes "streaming s p l"
  shows "\<exists>l'. link_run cv v (hanging_up @ [CDone p]) l = l' \<and> resting l' \<and>
    effs (sv l') = effs (sv l) @ [EClose s] \<and> effs (cl l') = effs (cl l) @ [EClose p] \<and>
    next_id (cl l') = Suc (next_id (cl l)) \<and> next_id (sv l') = next_id (sv l) \<and>
    set (outs l') = insert (Ok ()) (set (outs l))"
  using assms
  by (simp add: hanging_up_def streaming_def end_ready_def resting_def at_rest_def link_eval insert_commute)

text \<open>The read error of another stream, reported while this one is served.\<close>

definition stray_error :: "string \<Rightarrow> stream \<Rightarrow> stream \<Rightarrow> event list" where
  "stray_error msg s p =
     [SRead (SEnd (ReadOther msg)), SDone s, ToClient, CRead (SEnd ReadEnd), ToServer, ToClient, CDone p]"

lemma stray_error_ends:
  assumes "streaming s (Pipe i) l" and "onCmdErr (cl l) = Some (CmdErrStream i)"
  shows "\<exists>l'. link_run cv v (stray_error msg s' (Pipe i)) l = l' \<and> resting l' \<and>
    effs (sv l') = effs (sv l) @ [EClose s', EClose s] \<and>
    effs (cl l') = effs (cl l) @ [EClose (Pipe i), EClose (Pipe i)] \<and>
    set (outs l') = insert (Ok ()) (set (outs l))"
  using assms
  by (simp add: stray_error_def streaming_def end_ready_def resting_def at_rest_def link_eval nth_append insert_commute)

section \<open>Hanging up while data is on its way\<close>

text \<open>The client's half: the user has closed the stream, the close command is out, the write of the
  message to the closed pipe has failed, and the next dial has sent its command.\<close>

lemma in_flight_client:
  assumes "streaming s q l" and "d \<noteq> []"
  shows "\<exists>l'. link_run cv v [SRead (SData d), CRead (SEnd ReadEnd), ToClient, CDial p t]
      (l\<lparr>cl := (cl l)\<lparr>st_wres := [Some (NetErr ''closed pipe'')]\<rparr>\<rparr>) = l' \<and>
    ws_out (cl l') = ws_out (cl l) @ [Text [cmdClose], Text (cmdError # ''closed pipe''), Text (open_cmd cmdOpenStream p t)] \<and>
    to_sv l' = length (ws_out (cl l)) \<and> to_cl l' = length (ws_out (sv l')) \<and> end_ready s (sv l') \<and>
    next_id (sv l') = next_id (sv l) \<and> \<not> locked (cl l') \<and> onResult (cl l') = Some (OnDial (call l'))"
  using assms by (simp add: streaming_def end_ready_def link_eval)

text \<open>The server's half: it confirms the close, ignores the error report and serves the second target.\<close>

lemma in_flight_server:
  assumes "end_ready s (sv l)" and "CHR '';'' \<notin> set p" and "to_cl l = length (ws_out (sv l))"
    and "ws_out (cl l) = w @ [Text [cmdClose], Text (cmdError # msg), Text (open_cmd cmdOpenStream p t)]" and "to_sv l = length w"
  shows "\<exists>l'. link_run cv (open_env la) [ToServer, ToServer, ToServer] l = l' \<and>
    ws_out (sv l') = ws_out (sv l) @ [Text [cmdReply], Text (reply_true la)] \<and> to_cl l' = length (ws_out (sv l)) \<and>
    cl l' = cl l \<and> call l' = call l \<and> status (sv l') = StatusStream \<and>
    last (effs (sv l')) = EServeStream (Target (next_id (sv l)))"
  using assms by (simp add: end_ready_def link_eval nth_append)

text \<open>A confirmation that comes first is taken for the reply of the dial.\<close>

lemma stale_confirmation:
  assumes "\<not> locked (cl l)" and "onResult (cl l) = Some (OnDial (call l))" and "to_cl l < length (ws_out (sv l))"
    and "ws_out (sv l) ! to_cl l = Text [cmdReply]"
  shows "last (outs (link_run cv v [ToClient, CSelect Replied] l)) = Err (RemoteDialError []) \<and>
    status (cl (link_run cv v [ToClient, CSelect Replied] l)) = StatusIdle \<and>
    sv (link_run cv v [ToClient, CSelect Replied] l) = sv l"
  using assms by (simp add: link_eval)

section \<open>Properties\<close>



text \<open>A late goroutine kills the next session. After the user has hung up, the server's
  \<open>serveStream\<close> still has to see that its target was closed. If it does so only when the next dial
  has already put the connection into stream mode again, its check of the status passes, it reports
  the error of the old target, and the client closes the pipe of the new session, which then hangs
  up: the user of the second stream loses it although nothing was wrong with it. Every operation
  succeeds, and nothing tells the client that the error was not about its own stream.\<close>

theorem late_goroutine_kills_next_stream:
  assumes "CHR '';'' \<notin> set p" and "CHR '';'' \<notin> set p'"
  shows "\<exists>l l'.
    link_run cv (open_env la) (dialling p t @ (hanging_up @ [CDone (Pipe 1)]) @ dialling p' t') idle_link = l \<and>
    streaming (Target 1) (Pipe 4) l \<and> last (effs (cl l)) = EServeStream (Pipe 4) \<and>
    link_run cv (open_env la)
      (stray_error ''use of closed network connection'' (Target 0) (Pipe 4)) l = l' \<and>
    last (effs (cl l')) = EClose (Pipe 4) \<and> last (effs (sv l')) = EClose (Target 1) \<and>
    resting l' \<and> set (outs l') = {Ok ()}"
proof -
  let ?r = "link_run cv (open_env la)"
  obtain l1 where l1: "?r (dialling p t) idle_link = l1" "streaming (Target 0) (Pipe 1) l1"
    "next_id (cl l1) = 2" "next_id (sv l1) = 1" "set (outs l1) = {Ok ()}"
    using opened [OF assms(1) resting_idle admits_open_env, of cv la t] by (auto simp: idle_link_def WrapConn_def)
  obtain l2 where l2: "?r (hanging_up @ [CDone (Pipe 1)]) l1 = l2" "resting l2"
    "next_id (cl l2) = 3" "next_id (sv l2) = 1" "set (outs l2) = {Ok ()}"
    using hung_up [OF l1(2), of cv "open_env la"] l1(3-5) by auto
  obtain l3 where l3: "?r (dialling p' t') l2 = l3" "streaming (Target 1) (Pipe 4) l3"
    "onCmdErr (cl l3) = Some (CmdErrStream 4)" "last (effs (cl l3)) = EServeStream (Pipe 4)"
    "set (outs l3) = {Ok ()}"
    using opened [OF assms(2) l2(2) admits_open_env, of cv la t'] l2(3-5) by auto
  have "?r (dialling p t @ (hanging_up @ [CDone (Pipe 1)]) @ dialling p' t') idle_link = l3"
    by (simp only: link_run_append [of _ _ "dialling p t"] link_run_append [of _ _ "_ @ _" "dialling p' t'"] l1(1) l2(1) l3(1))
  then show ?thesis
    using l3 stray_error_ends [OF l3(2,3), of cv "open_env la" "''use of closed network connection''" "Target 0"]
    by auto
qed

theorem late_goroutine_kills_next_stream_witness:
  "\<exists>l. link_run no_env (open_env ''1.2.3.4:5'')
     (dialling ''tcp'' ''a.b:22'' @ (hanging_up @ [CDone (Pipe 1)]) @ dialling ''tcp'' ''c.d:80'') idle_link = l \<and>
    streaming (Target 1) (Pipe 4) l"
  using late_goroutine_kills_next_stream [of "''tcp''" "''tcp''" no_env "''1.2.3.4:5''" "''a.b:22''" "''c.d:80''"]
  by auto



text \<open>C35: Hanging up while data is on its way spoils the next dial. When the user closes the stream and
  a message of the target arrives after that, writing it to the closed pipe fails, and the reader loop
  makes the connection idle although the close command has not been confirmed. A dial started now
  takes the late confirmation for its own reply and fails with an empty remote error, while the server
  dials the second target and serves it.\<close>

theorem hang_up_in_flight_spoils_dial:
  assumes "streaming s q l" and "CHR '';'' \<notin> set p" and "d \<noteq> []"
  shows "\<exists>l'. link_run cv (open_env la)
      ([SRead (SData d), CRead (SEnd ReadEnd), ToClient, CDial p t] @ [ToServer, ToServer, ToServer] @ [ToClient, CSelect Replied])
      (l\<lparr>cl := (cl l)\<lparr>st_wres := [Some (NetErr ''closed pipe'')]\<rparr>\<rparr>) = l' \<and>
    last (outs l') = Err (RemoteDialError []) \<and> status (cl l') = StatusIdle \<and>
    status (sv l') = StatusStream \<and> last (effs (sv l')) = EServeStream (Target (next_id (sv l)))"
proof -
  let ?r = "link_run cv (open_env la)"
  obtain l1 where l1: "?r [SRead (SData d), CRead (SEnd ReadEnd), ToClient, CDial p t]
      (l\<lparr>cl := (cl l)\<lparr>st_wres := [Some (NetErr ''closed pipe'')]\<rparr>\<rparr>) = l1"
    "ws_out (cl l1) = ws_out (cl l) @ [Text [cmdClose], Text (cmdError # ''closed pipe''), Text (open_cmd cmdOpenStream p t)]"
    "to_sv l1 = length (ws_out (cl l))" "to_cl l1 = length (ws_out (sv l1))" "end_ready s (sv l1)"
    "next_id (sv l1) = next_id (sv l)" "\<not> locked (cl l1)" "onResult (cl l1) = Some (OnDial (call l1))"
    using in_flight_client [OF assms(1,3), of cv "open_env la" p t] by blast
  obtain l2 where l2: "?r [ToServer, ToServer, ToServer] l1 = l2"
    "ws_out (sv l2) = ws_out (sv l1) @ [Text [cmdReply], Text (reply_true la)]" "to_cl l2 = length (ws_out (sv l1))"
    "cl l2 = cl l1" "call l2 = call l1" "status (sv l2) = StatusStream"
    "last (effs (sv l2)) = EServeStream (Target (next_id (sv l1)))"
    using in_flight_server [OF l1(5) assms(2) l1(4,2,3), of cv la] by blast
  have "\<not> locked (cl l2)" "onResult (cl l2) = Some (OnDial (call l2))" "to_cl l2 < length (ws_out (sv l2))"
    "ws_out (sv l2) ! to_cl l2 = Text [cmdReply]" using l1(7,8) l2(2-5) by simp_all
  from stale_confirmation [OF this]
  have "last (outs (?r [ToClient, CSelect Replied] l2)) = Err (RemoteDialError []) \<and>
    status (cl (?r [ToClient, CSelect Replied] l2)) = StatusIdle \<and> sv (?r [ToClient, CSelect Replied] l2) = sv l2" .
  then show ?thesis using l1(1,6) l2(1,6,7) by (auto simp only: link_run_append)
qed

theorem hang_up_in_flight_spoils_dial_witness:
  "\<exists>l l'. streaming (Target 0) (Pipe 1) l \<and> link_run no_env (open_env ''1.2.3.4:5'')
      ([SRead (SData [7]), CRead (SEnd ReadEnd), ToClient, CDial ''tcp'' ''c.d:80''] @ [ToServer, ToServer, ToServer] @
       [ToClient, CSelect Replied]) (l\<lparr>cl := (cl l)\<lparr>st_wres := [Some (NetErr ''closed pipe'')]\<rparr>\<rparr>) = l' \<and>
    last (outs l') = Err (RemoteDialError [])"
proof -
  obtain l where l: "streaming (Target 0) (Pipe 1) l"
    using opened [OF _ resting_idle admits_open_env, of "''tcp''" no_env "''1.2.3.4:5''" "''a.b:22''"]
    by (auto simp: idle_link_def WrapConn_def)
  show ?thesis
    using l hang_up_in_flight_spoils_dial [OF l, of "''tcp''" "[7]" no_env "''1.2.3.4:5''" "''c.d:80''"] by auto
qed

end
