(* ===== verification/Ws_Tunnel.thy ===== *)
theory Ws_Tunnel
  imports Ws_Socks Wire_Sessions
begin

text \<open>
  The whole tunnel: a SOCKS5 client, the SOCKS5 server with the handler of \<open>wssocks\<close>, the websocket
  client, the link between its connection and that of the remote server, the server's dialer and its
  target. The user's end of the in-memory pipe is where the two layers meet: what the connection writes
  to the pipe the SOCKS5 server reads from it, and the other way round.
\<close>

fun written :: "stream \<Rightarrow> effect list \<Rightarrow> bytes" where
  "written s [] = []"
| "written s (e # es) = (case e of EWrite s' bs \<Rightarrow> if s' = s then bs else [] | _ \<Rightarrow> []) @ written s es"

lemma written_append: "written s (es @ fs) = written s es @ written s fs"
  by (induction es) simp_all

lemma written_writes: "written s (map (EWrite s) bss) = concat bss"
  by (induction bss) simp_all

text \<open>The user's end of the pipe, in the state that the link has brought it to.\<close>

definition pipe_end :: "link \<Rightarrow> sock" where
  "pipe_end l = \<lparr>sk_in = written (Pipe 1) (effs (cl l)), sk_end = EOF, sk_out = [], sk_wres = []\<rparr>"

text \<open>The session on the link: the dial, the data phase and the catching up of the reader loops.\<close>

definition tunnel :: "env \<Rightarrow> env \<Rightarrow> string \<Rightarrow> string \<Rightarrow> event list \<Rightarrow> link" where
  "tunnel cv v p t evs =
     link_run cv v (dialling p t @ evs @ flush (length (sent_up evs)) (length (sent_down evs))) idle_link"

lemma tunnel_effects:
  assumes "CHR '';'' \<notin> set p" and "admits v p t la" and "\<forall>ev\<in>set evs. data_event ev"
  shows "sk_in (pipe_end (tunnel cv v p t evs)) = concat (sent_down evs)"
    and "written (Target 0) (effs (sv (tunnel cv v p t evs))) = concat (sent_up evs)"
    and "filter opens (effs (sv (tunnel cv v p t evs))) = [EDial p t]"
    and "ws_out (sv (tunnel cv v p t evs)) = Text (reply_true la) # map Binary (sent_down evs)"
proof -
  have f: "filter opens (map (EWrite x) bss) = []" for x bss by (induction bss) (simp_all add: opens_def)
  note e = first_flow_complete [OF assms, of cv, folded tunnel_def]
  show "sk_in (pipe_end (tunnel cv v p t evs)) = concat (sent_down evs)"
    "written (Target 0) (effs (sv (tunnel cv v p t evs))) = concat (sent_up evs)"
    "ws_out (sv (tunnel cv v p t evs)) = Text (reply_true la) # map Binary (sent_down evs)"
    using e by (auto simp: pipe_end_def written_writes)
  show "filter opens (effs (sv (tunnel cv v p t evs))) = [EDial p t]"
    using e f by (auto simp: opens_def)
qed

text \<open>The relay over a pipe that is read to its end.\<close>

lemma relay_ok:
  assumes "sk_wres c = []" and "sk_wres t = []" and "sk_end t = EOF"
  shows "\<exists>c' t'. relay up t c = (Ok (), c') \<and> sk_out c' = sk_out c @ sk_in t \<and> cn_target c' = Some t' \<and>
    sk_out t' = sk_out t @ take up (sk_in c)"
  using assms by (simp add: relay_def sk_copy_ok sk_write_ok)

section \<open>Property\<close>



end
