(* ===== verification/Spec2Isabelle.thy ===== *)
theory Spec2Isabelle
  imports L2tp Stack_Buffers Socks5_Auth Socks5_Udp Programs Client_Places Wire_Packets Packet_Buffers Ws_Tunnel
begin

text \<open>
  A verification development of the Go module \<open>github.com/kmcsr/wpn\<close>, a proxy that tunnels stream
  and packet connections over websockets.

  \<^bold>\<open>The program.\<close> A \<open>Client\<close> (\<open>client.go\<close>) keeps pools (\<open>connpool.go\<close>) of \<open>Conn\<close>s (\<open>conn.go\<close>), each
  a websocket to a remote \<open>Server\<close> (\<open>server.go\<close>). A dial takes an idle \<open>Conn\<close> and sends an open
  command over it; the server resolves the target, drops the addresses that its rule set
  (\<open>iprule.go\<close>, filled by \<open>server/main.go\<close>) blocks, dials, answers, and both ends copy data until one
  sends the close command. A SOCKS5 server (\<open>socks5/\<close>) offers this to programs, its requests being
  handed to the client by \<open>wssocks/handler.go\<close>. \<open>l2tp/server.go\<close> is a separate L2TP responder.

  \<^bold>\<open>The theories\<close>, in the order in which they build on each other:

  \<^item> \<open>Go_Prelude\<close> (bytes, outcomes, big-endian words, the proof collections), \<open>Go_Strings\<close>
    (\<open>strconv\<close>, \<open>strings\<close>, \<open>net.SplitHostPort\<close>, \<open>bufio.Scanner\<close>), \<open>Go_Netip\<close> and \<open>Netip_Text\<close>
    (\<open>net/netip\<close> and its text forms), \<open>Go_Io\<close> (sockets, and the state monad with failures): what the
    program uses of the language and its library.
  \<^item> \<open>Ip_Rule\<close> (\<open>iprule.go\<close>) and \<open>Block_Rules\<close> (\<open>loadBlockRules\<close> of \<open>server/main.go\<close> and
    \<open>server/consts.go\<close>): what a rule set contains, its text form and its built-in content.
  \<^item> \<open>L2tp\<close> (\<open>l2tp/\<close>): codecs of headers and attributes, the datagram handler, the serve loop;
    \<open>Stack_Buffers\<close>: \<open>getStack\<close> of \<open>l2tp/errors.go\<close> with its pool of pointers to slices.
  \<^item> \<open>Socks5_Addr\<close>, \<open>Socks5_Auth\<close>, \<open>Socks5_Server\<close> (\<open>socks5/\<close>): addresses in their three forms, the
    user table, and every message of a session up to the relay; \<open>Socks5_Udp\<close>: \<open>forwardPacket\<close> and the
    code behind the \<open>break\<close> of \<open>CmdForwardUDP\<close>, which nothing reaches.
  \<^item> \<open>Conn_Pool\<close> (\<open>connpool.go\<close>): a list under a mutex. The locale \<open>conn_store\<close> states what its
    users rely on, over the multiset of connections held.
  \<^item> \<open>Wire_Codec\<close>: command texts and packet frames; \<open>Wire_Conn\<close>: the \<open>Conn\<close> record and one definition
    for each method and each section that holds the lock; \<open>Wire_Step\<close>: the relation \<open>conn_step\<close> of all
    their interleavings, and the locale \<open>conn_invariant\<close> with its three interpretations;
    \<open>Wire_Lock\<close>: who gives the lock back; \<open>Wire_Command\<close>: single commands; \<open>Wire_Session\<close>: two
    connections joined by a websocket, a \<open>link\<close> of which an event is one section of one side;
    \<open>Wire_Sessions\<close>: streams one after the other on one link; \<open>Wire_Packets\<close>: its packet mode
    (all \<open>conn.go\<close>, with \<open>stringAddr\<close>, \<open>split\<close> and the pipe of \<open>utils.go\<close>).
  \<^item> \<open>Buffer_Pools\<close> (\<open>bufpool.go\<close>, \<open>internal/pool/ippkt.go\<close>): buffers as addresses, owned by a pool or by
    one user; the locale \<open>buffer_pool\<close> is the contract, interpreted by both pools.
    \<open>Packet_Buffers\<close>: the packets of \<open>conn.go\<close> as slices of pooled buffers, every goroutine that
    takes, fills, copies or frees one a step of \<open>buf_step\<close>, and their refinement of the packets as values.
  \<^item> \<open>Simulation\<close>: the locale of refinements between transition systems, interpreted in
    \<open>Packet_Buffers\<close> and \<open>Client_Places\<close>.
  \<^item> \<open>Server_Dial\<close> (\<open>server.go\<close>): the dialer, the packet listener, \<open>ServeHTTP\<close>. The locale
    \<open>address_filter\<close> is what it relies on of a rule set, interpreted by \<open>set_contains\<close>.
  \<^item> \<open>Wpn_Client\<close> (\<open>client.go\<close>): the client over a heap of connections; \<open>Client_Pools\<close>: the relation
    \<open>client_step\<close> of calls, pings, refills, goroutines and shutdown, and its invariant;
    \<open>Client_Places\<close>: its abstraction to the machine of places, in which a connection is idle, in use,
    active or lost.
  \<^item> \<open>Ws_Socks\<close> (\<open>wssocks/handler.go\<close>): the handler, and the way of a request from the SOCKS5 client
    to the remote dialer and back; \<open>Ws_Tunnel\<close>: the same with the data phase of the link behind it,
    the pipe of the client being the target of the SOCKS5 server.
  \<^item> \<open>Programs\<close> (\<open>main.go\<close> and \<open>config.go\<close> of \<open>server/\<close> and \<open>client/desktop/\<close>): the two \<open>main\<close> functions,
    their configuration and their logger (\<open>logger.go\<close>).

  \<^bold>\<open>State and effects.\<close> A function that can fail returns an \<open>outcome\<close>: a value, an error, a panic, or
  \<open>Hang\<close> for a call that never returns (a mutex never released, a channel never written). A
  stateful operation takes its state and returns an outcome with the new state, sequenced by
  \<open>sbind\<close>. What lies outside the process is data of the state or an argument: the bytes a socket
  will deliver, the messages a websocket delivers, the results of its writes, resolver and dialer,
  the choice of a \<open>select\<close>. Pointers shared by pools, calls and goroutines are addresses into the
  client's heap. A section under a mutex is one step; the step relations interleave the sections.
  Closed streams, dials and messages sent are recorded, so that what was never done can be stated.

  \<^bold>\<open>What the theorems show.\<close>
  Rule sets: exactly which addresses are contained, their bits, the round trip through the text
  form, the built-in rules, the loss after an over-long line. Server: no blocked address is dialled,
  and the dialer equals its specification on every input. Connection: a client never dials for
  its peer, stream status implies a stream, calls and closing agree in every reachable state, any
  number of sessions on one link deliver all data in order both ways and leave it at rest; and the
  interleavings that the code does not survive. Packets: round trip and its bound; in every
  interleaving none is lost, doubled or stuck, and they come in order if their goroutines do. Buffers:
  none has two owners, a read returns the packet it received, and packets in buffers refine packets as
  values. Client: a connection is in one place, moves only as the machine of places allows, comes back
  when its pipe closes, and \<open>Shutdown\<close> ends with empty pools; the pool refines a multiset. SOCKS5:
  address round trips, the trace of a session, authentication, error statuses; and from end to
  end through client and server, an admitted target is dialled and granted and the bytes
  of both sides arrive unchanged, in every interleaving of the goroutines that carry them; a blocked one is
  refused without a dial. Programs: a server without a rule file never dials its own networks, and
  every ping of the desktop client costs a connection. L2TP: round trips, the reply, and the datagram that ends the service.

  \<^bold>\<open>Bounds.\<close> Ports, L2TP fields and addresses are words of their width. All loops of the program are
  structural recursions over what is still to be read or tried, or carry a termination proof
  (\<open>remove_loop\<close>, \<open>stack_loop\<close>); no definition uses fuel but \<open>br_full_loop\<close> of \<open>Wire_Codec\<close>, which gets one
  unit for each byte it has to read, enough because every successful read brings at least one. A loop that waits for input gives \<open>Hang\<close> when the
  input of the model is used up; \<open>Shutdown\<close> polls once for each element of a list that ends when
  the caller's context is done.

  \<^bold>\<open>Not modelled.\<close> Time: timeouts and deadlines are the choice of a \<open>select\<close> case, the delay of a
  failed authentication is left out. The opening of sockets, the HTTP and websocket handshakes and
  the contents of \<open>nhooyr.io/websocket\<close>, a third-party package. The mobile
  program, a skeleton around the event loop of a GUI package. What a logger writes. Data
  races on fields that \<open>conn.go\<close> reads without the lock, beyond the interleaving of sections.
  \<open>strconv.Quote\<close>, which occurs in the text of one error, and the JSON codec of the configuration are
  parameters.
\<close>

end
